theory Spec2Isabelle
  imports Complex_Main "HOL-Library.Word" "HOL-Library.Sublist" "HOL-Library.AList"
begin

section \<open>The Vosk model setup script (models/setup\_vosk.py)\<close>

text \<open>
  The script is one linear procedure: \<open>download_file\<close> streams an HTTP response into
  \<open>vosk-model.zip\<close>, \<open>main\<close> then unpacks the archive into \<open>vosk_model/\<close>, copies
  the first entry matching \<open>vosk-model-*\<close> to
  \<open>../android/app/src/main/assets/vosk/model\<close> and removes the two temporary artifacts.

  Everything the script touches is outside of it: the network, the file system and the
  archive format. The embedding makes them explicit. The file system is a tree; the HTTP
  exchange is a value handed to \<open>download_file\<close>; the decoder of the archive format is a
  parameter. Every Python exception is a value of \<open>pyerror\<close>, returned together with the
  file system as it is when the exception leaves the program.
\<close>

subsection \<open>The file system\<close>

type_synonym byte = "8 word"
type_synonym bytes = "byte list"
type_synonym path = "string list"

text \<open>
  A directory is the list of its entries, in the order in which the operating system
  enumerates them (\<open>os.scandir\<close>). A path is the list of its components from the root.
\<close>

datatype node = File bytes | Dir "(string \<times> node) list"

datatype pyerror =
    ConnectionError | HTTPError | ChunkedEncodingError | ValueError
  | FileNotFoundError | FileExistsError | NotADirectoryError | IsADirectoryError
  | BadZipFile | IndexError

fun lookup :: "node \<Rightarrow> path \<Rightarrow> node option" where
  "lookup n [] = Some n"
| "lookup (File c) (x # p) = None"
| "lookup (Dir es) (x # p) = (case map_of es x of None \<Rightarrow> None | Some n \<Rightarrow> lookup n p)"

definition exists :: "node \<Rightarrow> path \<Rightarrow> bool" where
  "exists fs p = (lookup fs p \<noteq> None)"

definition is_dir :: "node \<Rightarrow> path \<Rightarrow> bool" where
  "is_dir fs p = (case lookup fs p of Some (Dir es) \<Rightarrow> True | _ \<Rightarrow> False)"

definition is_file :: "node \<Rightarrow> path \<Rightarrow> bool" where
  "is_file fs p = (case lookup fs p of Some (File c) \<Rightarrow> True | _ \<Rightarrow> False)"

text \<open>
  \<open>put p v fs\<close> stores the node \<open>v\<close> at \<open>p\<close>: an existing entry is replaced where it
  stands, a new one is added at the end of its directory. Nothing happens when the parent
  of \<open>p\<close> is not a directory; the operations below check that before they call it.
\<close>

fun put :: "path \<Rightarrow> node \<Rightarrow> node \<Rightarrow> node" where
  "put [] v t = v"
| "put (x # p) v (File c) = File c"
| "put (x # p) v (Dir es) =
     (case map_of es x of
        None \<Rightarrow> if p = [] then Dir (AList.update x v es) else Dir es
      | Some n \<Rightarrow> Dir (AList.update x (put p v n) es))"

fun remove :: "path \<Rightarrow> node \<Rightarrow> node" where
  "remove [] t = t"
| "remove (x # p) (File c) = File c"
| "remove (x # p) (Dir es) =
     (if p = [] then Dir (AList.delete x es)
      else case map_of es x of
             None \<Rightarrow> Dir es
           | Some n \<Rightarrow> Dir (AList.update x (remove p n) es))"

text \<open>
  \<open>mkdirs\<close> is \<open>Path.mkdir(parents=True, exist_ok=True)\<close> and the directory creation
  of \<open>os.makedirs\<close>: every missing directory on the way to \<open>p\<close> is created, existing
  directories are kept, and a file in the way is an error.
\<close>

fun mkdirs :: "path \<Rightarrow> node \<Rightarrow> pyerror + node" where
  "mkdirs [] (Dir es) = Inr (Dir es)"
| "mkdirs [] (File c) = Inl FileExistsError"
| "mkdirs (x # p) (File c) = Inl NotADirectoryError"
| "mkdirs (x # p) (Dir es) =
     (case mkdirs p (case map_of es x of None \<Rightarrow> Dir [] | Some n \<Rightarrow> n) of
        Inl e \<Rightarrow> Inl e
      | Inr n' \<Rightarrow> Inr (Dir (AList.update x n' es)))"

text \<open>\<open>os.mkdir\<close>: the parent must be a directory and the path must be free.\<close>

definition mkdir :: "path \<Rightarrow> node \<Rightarrow> pyerror + node" where
  "mkdir p fs =
     (if exists fs p then Inl FileExistsError
      else case lookup fs (butlast p) of
             None \<Rightarrow> Inl FileNotFoundError
           | Some (File c) \<Rightarrow> Inl NotADirectoryError
           | Some (Dir es) \<Rightarrow> Inr (put p (Dir []) fs))"

text \<open>
  \<open>open(p, 'wb')\<close> followed by the writes and the close: the file is created or
  truncated and holds the bytes written. Opening a directory, or a path whose parent is
  not a directory, raises.
\<close>

definition write_file :: "path \<Rightarrow> bytes \<Rightarrow> node \<Rightarrow> pyerror + node" where
  "write_file p c fs =
     (if is_dir fs p then Inl IsADirectoryError
      else case lookup fs (butlast p) of
             None \<Rightarrow> Inl FileNotFoundError
           | Some (File d) \<Rightarrow> Inl NotADirectoryError
           | Some (Dir es) \<Rightarrow> Inr (put p (File c) fs))"

text \<open>\<open>Path.unlink\<close> removes a file; \<open>shutil.rmtree\<close> removes a directory tree.\<close>

definition unlink :: "path \<Rightarrow> node \<Rightarrow> pyerror + node" where
  "unlink p fs =
     (case lookup fs p of
        None \<Rightarrow> Inl FileNotFoundError
      | Some (Dir es) \<Rightarrow> Inl IsADirectoryError
      | Some (File c) \<Rightarrow> Inr (remove p fs))"

definition rmtree :: "path \<Rightarrow> node \<Rightarrow> pyerror + node" where
  "rmtree p fs =
     (case lookup fs p of
        None \<Rightarrow> Inl FileNotFoundError
      | Some (File c) \<Rightarrow> Inl NotADirectoryError
      | Some (Dir es) \<Rightarrow> Inr (remove p fs))"

text \<open>
  \<open>shutil.copytree(src, dst)\<close> lists \<open>src\<close> first, then creates \<open>dst\<close> with
  \<open>os.makedirs\<close> (which refuses an existing \<open>dst\<close>) and copies every entry, in the order
  of the listing.
\<close>

definition copytree :: "path \<Rightarrow> path \<Rightarrow> node \<Rightarrow> pyerror + node" where
  "copytree src dst fs =
     (case lookup fs src of
        None \<Rightarrow> Inl FileNotFoundError
      | Some (File c) \<Rightarrow> Inl NotADirectoryError
      | Some (Dir es) \<Rightarrow>
          if exists fs dst then Inl FileExistsError
          else case mkdirs (butlast dst) fs of
                 Inl e \<Rightarrow> Inl e
               | Inr fs' \<Rightarrow> Inr (put dst (Dir es) fs'))"

text \<open>
  \<open>Path(d).glob(pat + "*")\<close>: the entries of \<open>d\<close> whose name starts with \<open>pat\<close>, in
  the order of the listing; nothing when \<open>d\<close> is not a directory.
\<close>

definition scandir :: "node \<Rightarrow> path \<Rightarrow> string list" where
  "scandir fs d = (case lookup fs d of Some (Dir es) \<Rightarrow> map fst es | _ \<Rightarrow> [])"

definition glob :: "node \<Rightarrow> path \<Rightarrow> string \<Rightarrow> path list" where
  "glob fs d pat = map (\<lambda>n. d @ [n]) (filter (prefix pat) (scandir fs d))"

subsection \<open>download\_file\<close>

text \<open>
  What \<open>requests.get(url, stream=True)\<close> gives: no response at all (a connection
  error), or a response with its status code, its \<open>content-length\<close> header and the
  chunks that \<open>iter_content(chunk_size=8192)\<close> yields; \<open>broken\<close> says that the stream
  raises after the last of these chunks.
\<close>

datatype header = NoHeader | BadHeader | Len int

record response =
  status_code :: nat
  content_length :: header
  chunks :: "bytes list"
  broken :: bool

datatype http = Unreachable | Response response

text \<open>\<open>Response.raise_for_status\<close> raises for the codes 400 to 599; \<open>Response.ok\<close> is its negation.\<close>

definition ok :: "response \<Rightarrow> bool" where
  "ok r = (\<not> (400 \<le> status_code r \<and> status_code r < 600))"

text \<open>\<open>int(response.headers.get('content-length', 0))\<close>\<close>

fun total_of :: "header \<Rightarrow> pyerror + int" where
  "total_of NoHeader = Inr 0"
| "total_of BadHeader = Inl ValueError"
| "total_of (Len n) = Inr n"

text \<open>
  The loop keeps three things: the bytes written to the open file, the counter
  \<open>downloaded\<close>, and the progress lines printed so far.
\<close>

record dl_state =
  written :: bytes
  downloaded :: int
  progress :: "string list"

definition dl_init :: dl_state where
  "dl_init = \<lparr>written = [], downloaded = 0, progress = []\<rparr>"

text \<open>
  \<open>percent = (downloaded / total) * 100\<close>. Python computes it in binary floating
  point; here it is the exact quotient. \<open>fmt_1f\<close> is the format \<open>{percent:.1f}\<close>:
  the value rounded to one decimal, ties to the even neighbour, written in decimal.
\<close>

definition percent :: "int \<Rightarrow> int \<Rightarrow> rat" where
  "percent d t = (of_int d / of_int t) * 100"

definition tenths :: "rat \<Rightarrow> int" where
  "tenths r =
     (let x = r * 10; f = \<lfloor>x\<rfloor>; d = x - of_int f
      in if d < 1 / 2 then f else if 1 / 2 < d then f + 1
         else if even f then f else f + 1)"

definition digit :: "nat \<Rightarrow> char" where
  "digit n = ''0123456789'' ! n"

function dec :: "nat \<Rightarrow> string" where
  "dec n = (if n < 10 then [digit n] else dec (n div 10) @ [digit (n mod 10)])"
  by pat_completeness auto
termination
  by (relation "measure id") auto

declare dec.simps [simp del]

definition fmt_1f :: "rat \<Rightarrow> string" where
  "fmt_1f r =
     (let t = nat (tenths \<bar>r\<bar>)
      in (if r < 0 then ''-'' else []) @ dec (t div 10) @ ''.'' @ [digit (t mod 10)])"

definition progress_line :: "rat \<Rightarrow> string" where
  "progress_line r = CHR 0x0D # ''Progress: '' @ fmt_1f r @ ''%''"

text \<open>The body of the loop over the chunks, and the loop.\<close>

definition dl_step :: "int \<Rightarrow> dl_state \<Rightarrow> bytes \<Rightarrow> dl_state" where
  "dl_step tot s chunk =
     (if chunk \<noteq> [] then
        let s1 = s\<lparr>written := written s @ chunk,
                   downloaded := downloaded s + int (length chunk)\<rparr>
        in if tot > 0
           then s1\<lparr>progress := progress s1 @ [progress_line (percent (downloaded s1) tot)]\<rparr>
           else s1
      else s)"

fun dl_loop :: "int \<Rightarrow> dl_state \<Rightarrow> bytes list \<Rightarrow> dl_state" where
  "dl_loop tot s [] = s"
| "dl_loop tot s (chunk # rest) = dl_loop tot (dl_step tot s chunk) rest"

text \<open>
  \<open>download_file(url, destination)\<close>, given what the request for \<open>url\<close> returns.
  The result is the file system after the call, or the exception with the file system at
  the moment it is raised. The file is opened after the status and the header are read,
  and it is closed (by \<open>with\<close>) with whatever was written when the stream raises.
\<close>

definition download_file :: "http \<Rightarrow> path \<Rightarrow> node \<Rightarrow> pyerror \<times> node + node" where
  "download_file h destination fs =
     (case h of
        Unreachable \<Rightarrow> Inl (ConnectionError, fs)
      | Response r \<Rightarrow>
          if \<not> ok r then Inl (HTTPError, fs)
          else case total_of (content_length r) of
                 Inl e \<Rightarrow> Inl (e, fs)
               | Inr tot \<Rightarrow>
                   (case write_file destination (written (dl_loop tot dl_init (chunks r))) fs of
                      Inl e \<Rightarrow> Inl (e, fs)
                    | Inr fs' \<Rightarrow>
                        if broken r then Inl (ChunkedEncodingError, fs') else Inr fs'))"

subsection \<open>main\<close>

text \<open>
  The paths of \<open>main\<close>, resolved against the directory \<open>cwd\<close> in which the script
  is started: \<open>..\<close> is the parent of \<open>cwd\<close> (the root is its own parent).
\<close>

definition model_zip :: "path \<Rightarrow> path" where
  "model_zip cwd = cwd @ [''vosk-model.zip'']"

definition vosk_model :: "path \<Rightarrow> path" where
  "vosk_model cwd = cwd @ [''vosk_model'']"

definition android_assets :: "path \<Rightarrow> path" where
  "android_assets cwd =
     butlast cwd @ [''android'', ''app'', ''src'', ''main'', ''assets'', ''vosk'']"

definition dest_model :: "path \<Rightarrow> path" where
  "dest_model cwd = android_assets cwd @ [''model'']"

text \<open>
  An archive is the list of its members in the order of the central directory, each with
  its name split into components (as \<open>zipfile\<close> sanitises it) and either the mark of a
  directory or the bytes of a file. The decoder of the zip format is not part of the
  script: it is the parameter \<open>unzip\<close> of \<open>main\<close>, \<open>None\<close> for bytes that are no archive.
\<close>

datatype member = MDir | MFile bytes

type_synonym archive = "(path \<times> member) list"

text \<open>An operation that fails leaves the file system as it found it.\<close>

definition attempt :: "pyerror + node \<Rightarrow> node \<Rightarrow> pyerror \<times> node + node" where
  "attempt r fs = (case r of Inl e \<Rightarrow> Inl (e, fs) | Inr fs' \<Rightarrow> Inr fs')"

text \<open>
  \<open>ZipFile._extract_member\<close>: the directories above the target are created when they
  are missing (\<open>extract_member\<close>); then the member is placed (\<open>place\<close>): a directory
  member is created unless it is there, a file member is written over whatever file is
  there.
\<close>

definition place :: "path \<Rightarrow> member \<Rightarrow> node \<Rightarrow> pyerror \<times> node + node" where
  "place target m fs =
     (case m of
        MDir \<Rightarrow> if is_dir fs target then Inr fs else attempt (mkdir target fs) fs
      | MFile c \<Rightarrow> attempt (write_file target c fs) fs)"

definition extract_member :: "path \<Rightarrow> path \<times> member \<Rightarrow> node \<Rightarrow> pyerror \<times> node + node" where
  "extract_member base pm fs =
     (let target = base @ fst pm; upperdirs = butlast target
      in case (if fst pm \<noteq> [] \<and> \<not> exists fs upperdirs then mkdirs upperdirs fs else Inr fs) of
           Inl e \<Rightarrow> Inl (e, fs)
         | Inr fs1 \<Rightarrow> place target (snd pm) fs1)"

fun extractall :: "path \<Rightarrow> archive \<Rightarrow> node \<Rightarrow> pyerror \<times> node + node" where
  "extractall base [] fs = Inr fs"
| "extractall base (pm # rest) fs =
     (case extract_member base pm fs of
        Inl e \<Rightarrow> Inl e
      | Inr fs' \<Rightarrow> extractall base rest fs')"

text \<open>Lines 38 to 42: \<open>zipfile.ZipFile(model_zip, 'r')\<close> and \<open>extractall("vosk_model")\<close>.\<close>

definition extract_model :: "(bytes \<Rightarrow> archive option) \<Rightarrow> path \<Rightarrow> node \<Rightarrow> pyerror \<times> node + node" where
  "extract_model unzip cwd fs =
     (case lookup fs (model_zip cwd) of
        None \<Rightarrow> Inl (FileNotFoundError, fs)
      | Some (Dir es) \<Rightarrow> Inl (IsADirectoryError, fs)
      | Some (File c) \<Rightarrow>
          (case unzip c of
             None \<Rightarrow> Inl (BadZipFile, fs)
           | Some ms \<Rightarrow> extractall (vosk_model cwd) ms fs))"

text \<open>The pattern of line 50, without its star.\<close>

abbreviation pat :: string where
  "pat \<equiv> ''vosk-model-''"

text \<open>
  Lines 45 to 58: the assets directory is created with its parents, the first entry of
  \<open>vosk_model\<close> that matches \<open>vosk-model-*\<close> is taken, an existing destination is
  removed, and the entry is copied to the destination.
\<close>

definition install_model :: "path \<Rightarrow> node \<Rightarrow> pyerror \<times> node + node" where
  "install_model cwd fs =
     (case mkdirs (android_assets cwd) fs of
        Inl e \<Rightarrow> Inl (e, fs)
      | Inr fs1 \<Rightarrow>
          (case glob fs1 (vosk_model cwd) pat of
             [] \<Rightarrow> Inl (IndexError, fs1)
           | model_dir # others \<Rightarrow>
               (case (if exists fs1 (dest_model cwd) then rmtree (dest_model cwd) fs1
                      else Inr fs1) of
                  Inl e \<Rightarrow> Inl (e, fs1)
                | Inr fs2 \<Rightarrow> attempt (copytree model_dir (dest_model cwd) fs2) fs2)))"

text \<open>Lines 61 and 62: \<open>model_zip.unlink()\<close> and \<open>shutil.rmtree("vosk_model")\<close>.\<close>

definition cleanup :: "path \<Rightarrow> node \<Rightarrow> pyerror \<times> node + node" where
  "cleanup cwd fs =
     (case unlink (model_zip cwd) fs of
        Inl e \<Rightarrow> Inl (e, fs)
      | Inr fs1 \<Rightarrow> attempt (rmtree (vosk_model cwd) fs1) fs1)"

text \<open>
  \<open>main\<close>: the four steps in the order of the source; the first exception ends the
  program. The lines printed and the size computed at the end only read the file system.
\<close>

definition main :: "http \<Rightarrow> (bytes \<Rightarrow> archive option) \<Rightarrow> path \<Rightarrow> node \<Rightarrow> pyerror \<times> node + node" where
  "main h unzip cwd fs =
     (case download_file h (model_zip cwd) fs of
        Inl e \<Rightarrow> Inl e
      | Inr fs1 \<Rightarrow>
          (case extract_model unzip cwd fs1 of
             Inl e \<Rightarrow> Inl e
           | Inr fs2 \<Rightarrow>
               (case install_model cwd fs2 of
                  Inl e \<Rightarrow> Inl e
                | Inr fs3 \<Rightarrow> cleanup cwd fs3)))"

text \<open>
  The file system when a step ends, whichever way it ends, and whether it ended without
  an exception.
\<close>

definition final :: "pyerror \<times> node + node \<Rightarrow> node" where
  "final r = (case r of Inl (e, fs) \<Rightarrow> fs | Inr fs \<Rightarrow> fs)"

definition succeeded :: "pyerror \<times> node + node \<Rightarrow> bool" where
  "succeeded r = (case r of Inl x \<Rightarrow> False | Inr fs \<Rightarrow> True)"

subsection \<open>Concrete runs\<close>

text \<open>
  A small world on which the theorems below are instantiated: the script is started in
  \<open>/home/lylyt/models\<close>, nothing called \<open>android\<close> exists next to it, and the server
  answers with three bytes that \<open>unzip0\<close> decodes as an archive holding the model
  directory \<open>vosk-model-small-en-us-0.15\<close>.
\<close>

definition cwd0 :: path where
  "cwd0 = [''home'', ''lylyt'', ''models'']"

definition fs0 :: node where
  "fs0 = Dir [(''home'', Dir [(''lylyt'', Dir [(''models'',
           Dir [(''setup_vosk.py'', File [35, 33])])])])]"

definition resp0 :: response where
  "resp0 = \<lparr>status_code = 200, content_length = Len 3,
             chunks = [[80, 75], [], [3]], broken = False\<rparr>"

text \<open>A response whose archive holds no entry named \<open>vosk-model-*\<close>, and an error page.\<close>

definition resp1 :: response where
  "resp1 = \<lparr>status_code = 200, content_length = NoHeader,
             chunks = [[80, 75, 4]], broken = False\<rparr>"

definition resp404 :: response where
  "resp404 = \<lparr>status_code = 404, content_length = Len 4,
               chunks = [[60, 104, 49, 62]], broken = False\<rparr>"

definition unzip0 :: "bytes \<Rightarrow> archive option" where
  "unzip0 b =
     (if b = [80, 75, 3] then
        Some [([''vosk-model-small-en-us-0.15'', ''am'', ''final.mdl''], MFile [1, 2]),
              ([''vosk-model-small-en-us-0.15'', ''README''], MFile [7])]
      else if b = [80, 75, 4] then Some [([''README''], MFile [7])]
      else None)"

definition run0 :: "node \<Rightarrow> pyerror \<times> node + node" where
  "run0 fs = main (Response resp0) unzip0 cwd0 fs"

text \<open>
  The same place after an earlier run was interrupted: \<open>vosk_model\<close> is still there and
  its model directory holds a file that is not in the archive.
\<close>

definition fs_stale :: node where
  "fs_stale = Dir [(''home'', Dir [(''lylyt'', Dir [(''models'',
           Dir [(''setup_vosk.py'', File [35, 33]),
                (''vosk_model'', Dir [(''vosk-model-small-en-us-0.15'',
                   Dir [(''stale.txt'', File [9])])])])])])]"

text \<open>
  A state in front of the install step: the archive is unpacked, and the destination
  holds a file of an older model. In \<open>fs_old_bad\<close> the entry that matches is a file.
\<close>

definition fs_old :: node where
  "fs_old = Dir [(''home'', Dir [(''lylyt'', Dir
           [(''models'', Dir [(''vosk-model.zip'', File [80, 75, 3]),
                (''vosk_model'', Dir [(''vosk-model-small-en-us-0.15'',
                   Dir [(''README'', File [7])])])]),
            (''android'', Dir [(''app'', Dir [(''src'', Dir [(''main'', Dir [(''assets'',
               Dir [(''vosk'', Dir [(''model'', Dir [(''old.txt'', File [9])])])])])])])])])])]"

definition fs_old_bad :: node where
  "fs_old_bad = Dir [(''home'', Dir [(''lylyt'', Dir
           [(''models'', Dir [(''vosk-model.zip'', File [80, 75, 3]),
                (''vosk_model'', Dir [(''vosk-model-notes'', File [7])])]),
            (''android'', Dir [(''app'', Dir [(''src'', Dir [(''main'', Dir [(''assets'',
               Dir [(''vosk'', Dir [(''model'', Dir [(''old.txt'', File [9])])])])])])])])])])]"

text \<open>Two entries match in \<open>fs_multi\<close>; the listing has \<open>vosk-model-b\<close> first.\<close>

definition fs_multi :: node where
  "fs_multi = Dir [(''home'', Dir [(''lylyt'', Dir [(''models'',
           Dir [(''vosk_model'', Dir [(''notes'', File [7]),
                   (''vosk-model-b'', Dir [(''b'', File [2])]),
                   (''vosk-model-a'', Dir [(''a'', File [1])])])])])])]"

text \<open>
  A destination installed by an earlier run, and the run on the archive without a model
  directory, with the file systems after its download and after its extraction.
\<close>

definition fs_prev :: node where
  "fs_prev = Dir [(''home'', Dir [(''lylyt'', Dir
           [(''models'', Dir [(''setup_vosk.py'', File [35, 33])]),
            (''android'', Dir [(''app'', Dir [(''src'', Dir [(''main'', Dir [(''assets'',
               Dir [(''vosk'', Dir [(''model'', Dir [(''old.txt'', File [9])])])])])])])])])])]"

definition run1 :: "node \<Rightarrow> pyerror \<times> node + node" where
  "run1 fs = main (Response resp1) unzip0 cwd0 fs"

definition fetched1 :: node where
  "fetched1 = final (download_file (Response resp1) (model_zip cwd0) fs_prev)"

definition unpacked1 :: node where
  "unpacked1 = final (extract_model unzip0 cwd0 fetched1)"

section \<open>Properties\<close>

subsection \<open>The download loop\<close>

lemma dl_step_written:
  "written (dl_step tot s c) = written s @ c"
  by (simp add: dl_step_def Let_def)

lemma dl_step_downloaded:
  "downloaded (dl_step tot s c) = downloaded s + int (length c)"
  by (simp add: dl_step_def Let_def)

lemma dl_loop_written:
  "written (dl_loop tot s cs) = written s @ concat cs"
  by (induction cs arbitrary: s) (simp_all add: dl_step_written)

lemma dl_loop_downloaded:
  "downloaded (dl_loop tot s cs) = downloaded s + int (length (concat cs))"
  by (induction cs arbitrary: s) (simp_all add: dl_step_downloaded)

subsection \<open>Paths in the tree\<close>

lemma lookup_append:
  "lookup t (a @ r) = (case lookup t a of None \<Rightarrow> None | Some n \<Rightarrow> lookup n r)"
proof (induction a arbitrary: t)
  case Nil
  show ?case by simp
next
  case (Cons x a)
  show ?case
    by (cases t) (simp_all add: Cons.IH split: option.splits)
qed

lemma lookup_put_other:
  "\<not> prefix p q \<Longrightarrow> \<not> prefix q p \<Longrightarrow> lookup (put p v t) q = lookup t q"
proof (induction p arbitrary: t q)
  case Nil
  then show ?case by simp
next
  case (Cons x p)
  then obtain y q' where q: "q = y # q'" by (cases q) auto
  show ?case
  proof (cases t)
    case (File c)
    then show ?thesis by simp
  next
    case (Dir es)
    show ?thesis
    proof (cases "x = y")
      case False
      then show ?thesis using Dir q
        by (simp add: AList.update_conv' split: option.splits)
    next
      case True
      with Cons.prems q have np: "\<not> prefix p q'" "\<not> prefix q' p" by simp_all
      then have "p \<noteq> []" by auto
      then show ?thesis using Dir q True Cons.IH[OF np]
        by (simp add: AList.update_conv' split: option.splits)
    qed
  qed
qed

lemma lookup_put_same:
  "p \<noteq> [] \<Longrightarrow> is_dir t (butlast p) \<Longrightarrow> lookup (put p v t) p = Some v"
proof (induction p arbitrary: t)
  case Nil
  then show ?case by simp
next
  case (Cons x p)
  from Cons.prems(2) obtain es where t: "t = Dir es"
    by (cases t) (auto simp: is_dir_def split: if_splits)
  show ?case
  proof (cases "p = []")
    case True
    then show ?thesis using t by (simp add: AList.update_conv' split: option.splits)
  next
    case False
    with Cons.prems(2) t obtain n where n: "map_of es x = Some n" "is_dir n (butlast p)"
      by (auto simp: is_dir_def split: option.splits)
    then show ?thesis using t False Cons.IH[OF False n(2)]
      by (simp add: AList.update_conv')
  qed
qed

lemma lookup_put_sub:
  "lookup t a = Some n \<Longrightarrow> lookup (put (a @ r) v t) a = Some (put r v n)"
proof (induction a arbitrary: t)
  case Nil
  then show ?case by simp
next
  case (Cons x a)
  then obtain es where t: "t = Dir es" by (cases t) auto
  with Cons.prems obtain c where c: "map_of es x = Some c" "lookup c a = Some n"
    by (auto split: option.splits)
  then show ?case using t Cons.IH[OF c(2)]
    by (simp add: AList.update_conv')
qed

lemma lookup_remove_other:
  "\<not> prefix p q \<Longrightarrow> \<not> prefix q p \<Longrightarrow> lookup (remove p t) q = lookup t q"
proof (induction p arbitrary: t q)
  case Nil
  then show ?case by simp
next
  case (Cons x p)
  then obtain y q' where q: "q = y # q'" by (cases q) auto
  show ?case
  proof (cases t)
    case (File c)
    then show ?thesis by simp
  next
    case (Dir es)
    show ?thesis
    proof (cases "x = y")
      case False
      then show ?thesis using Dir q
        by (simp add: AList.update_conv' AList.delete_conv' split: option.splits)
    next
      case True
      with Cons.prems q have np: "\<not> prefix p q'" "\<not> prefix q' p" by simp_all
      then have "p \<noteq> []" by auto
      then show ?thesis using Dir q True Cons.IH[OF np]
        by (simp add: AList.update_conv' split: option.splits)
    qed
  qed
qed

lemma lookup_remove_same:
  "p \<noteq> [] \<Longrightarrow> lookup (remove p t) p = None"
proof (induction p arbitrary: t)
  case Nil
  then show ?case by simp
next
  case (Cons x p)
  show ?case
  proof (cases t)
    case (File c)
    then show ?thesis by simp
  next
    case (Dir es)
    show ?thesis
    proof (cases "p = []")
      case True
      then show ?thesis using Dir by (simp add: AList.delete_conv')
    next
      case False
      then show ?thesis using Dir Cons.IH[OF False]
        by (simp add: AList.update_conv' split: option.splits)
    qed
  qed
qed

lemma lookup_mkdirs_other:
  "mkdirs p t = Inr t' \<Longrightarrow> \<not> prefix q p \<Longrightarrow> lookup t' q = lookup t q"
proof (induction p arbitrary: t t' q)
  case Nil
  then show ?case by (cases t) auto
next
  case (Cons x p)
  then obtain y q' where q: "q = y # q'" by (cases q) auto
  from Cons.prems(1) obtain es where t: "t = Dir es" by (cases t) auto
  let ?c = "case map_of es x of None \<Rightarrow> Dir [] | Some n \<Rightarrow> n"
  from Cons.prems(1) t obtain n' where n': "mkdirs p ?c = Inr n'" "t' = Dir (AList.update x n' es)"
    by (auto split: sum.splits)
  show ?case
  proof (cases "x = y")
    case False
    then show ?thesis using t q n' by (simp add: AList.update_conv')
  next
    case True
    with Cons.prems(2) q have "\<not> prefix q' p" by simp
    from Cons.IH[OF n'(1) this] have "lookup n' q' = lookup ?c q'" .
    moreover have "q' \<noteq> []" using \<open>\<not> prefix q' p\<close> by auto
    then have "lookup (Dir []) q' = None" by (cases q') auto
    ultimately show ?thesis using t q n' True
      by (simp add: AList.update_conv' split: option.splits)
  qed
qed

lemma is_dir_mkdirs:
  "mkdirs p t = Inr t' \<Longrightarrow> prefix q p \<Longrightarrow> is_dir t' q"
proof (induction p arbitrary: t t' q)
  case Nil
  then show ?case by (cases t) (auto simp: is_dir_def)
next
  case (Cons x p)
  from Cons.prems(1) obtain es where t: "t = Dir es" by (cases t) auto
  let ?c = "case map_of es x of None \<Rightarrow> Dir [] | Some n \<Rightarrow> n"
  from Cons.prems(1) t obtain n' where n': "mkdirs p ?c = Inr n'" "t' = Dir (AList.update x n' es)"
    by (auto split: sum.splits)
  show ?case
  proof (cases q)
    case Nil
    then show ?thesis using n' by (simp add: is_dir_def)
  next
    case (Cons y q')
    with Cons.prems(2) have "y = x" "prefix q' p" by simp_all
    from Cons.IH[OF n'(1) this(2)] show ?thesis using n' Cons \<open>y = x\<close>
      by (simp add: is_dir_def AList.update_conv')
  qed
qed

lemma mkdirs_succeeds:
  "\<forall>q. prefix q p \<longrightarrow> \<not> is_file t q \<Longrightarrow> \<exists>t'. mkdirs p t = Inr t'"
proof (induction p arbitrary: t)
  case Nil
  then show ?case by (cases t) (auto simp: is_file_def)
next
  case (Cons x p)
  from Cons.prems[rule_format, of "[]"] obtain es where t: "t = Dir es"
    by (cases t) (auto simp: is_file_def)
  let ?c = "case map_of es x of None \<Rightarrow> Dir [] | Some n \<Rightarrow> n"
  have "\<forall>q. prefix q p \<longrightarrow> \<not> is_file ?c q"
  proof (intro allI impI)
    fix q assume "prefix q p"
    then have "\<not> is_file t (x # q)" using Cons.prems by simp
    then show "\<not> is_file ?c q" using t
      by (cases q) (auto simp: is_file_def split: option.splits)
  qed
  from Cons.IH[OF this] show ?case using t by auto
qed

lemma is_dir_put:
  "is_dir t q \<Longrightarrow> \<not> prefix p q \<Longrightarrow> is_dir (put p v t) q"
proof (induction p arbitrary: t q)
  case Nil
  then show ?case by simp
next
  case (Cons x p)
  from Cons.prems(1) show ?case
  proof (cases q)
    case Nil
    then show ?thesis using Cons.prems(1)
      by (cases t) (auto simp: is_dir_def split: option.splits)
  next
    case (Cons y q')
    with Cons.prems(1) obtain es where t: "t = Dir es"
      by (cases t) (auto simp: is_dir_def)
    show ?thesis
    proof (cases "x = y")
      case False
      then show ?thesis using t Cons Cons.prems(1)
        by (auto simp: is_dir_def AList.update_conv' split: option.splits)
    next
      case True
      with Cons.prems(2) Cons have np: "\<not> prefix p q'" by simp
      from Cons.prems(1) t Cons True obtain n where n: "map_of es x = Some n" "is_dir n q'"
        by (auto simp: is_dir_def split: option.splits)
      from Cons.IH[OF n(2) np] show ?thesis using t Cons True n
        by (simp add: is_dir_def AList.update_conv')
    qed
  qed
qed

lemma is_dir_remove:
  "is_dir t q \<Longrightarrow> \<not> prefix p q \<Longrightarrow> is_dir (remove p t) q"
proof (induction p arbitrary: t q)
  case Nil
  then show ?case by simp
next
  case (Cons x p)
  from Cons.prems(1) show ?case
  proof (cases q)
    case Nil
    then show ?thesis using Cons.prems(1)
      by (cases t) (auto simp: is_dir_def split: option.splits)
  next
    case (Cons y q')
    with Cons.prems(1) obtain es where t: "t = Dir es"
      by (cases t) (auto simp: is_dir_def)
    show ?thesis
    proof (cases "x = y")
      case False
      then show ?thesis using t Cons Cons.prems(1)
        by (auto simp: is_dir_def AList.update_conv' AList.delete_conv' split: option.splits)
    next
      case True
      with Cons.prems(2) Cons have np: "\<not> prefix p q'" by simp
      then have "p \<noteq> []" by auto
      from Cons.prems(1) t Cons True obtain n where n: "map_of es x = Some n" "is_dir n q'"
        by (auto simp: is_dir_def split: option.splits)
      from Cons.IH[OF n(2) np] show ?thesis using t Cons True n \<open>p \<noteq> []\<close>
        by (simp add: is_dir_def AList.update_conv')
    qed
  qed
qed

lemma apart_append:
  "\<not> prefix b q \<Longrightarrow> \<not> prefix q b \<Longrightarrow> \<not> prefix (b @ r) q \<and> \<not> prefix q (b @ r)"
  by (metis prefix_append prefix_order.trans prefixI)

lemma up_apart1:
  "x \<noteq> a \<Longrightarrow> x \<noteq> b \<Longrightarrow> \<not> prefix (cwd @ x # s) (butlast cwd @ a # b # r)"
  by (cases cwd rule: rev_cases) auto

lemma up_apart2:
  "x \<noteq> a \<Longrightarrow> x \<noteq> b \<Longrightarrow> \<not> prefix (butlast cwd @ a # b # r) (cwd @ x # s)"
  by (cases cwd rule: rev_cases) auto

lemma zip_dest_apart:
  "\<not> prefix (model_zip cwd) (dest_model cwd)"
  "\<not> prefix (model_zip cwd) (android_assets cwd)"
  unfolding model_zip_def dest_model_def android_assets_def append_assoc append_Cons append_Nil
  by (rule up_apart1; simp)+

lemma dest_zip_apart:
  "\<not> prefix (dest_model cwd) (model_zip cwd)"
  unfolding model_zip_def dest_model_def android_assets_def append_assoc append_Cons append_Nil
  by (rule up_apart2; simp)

lemma xdir_dest_apart:
  "\<not> prefix (vosk_model cwd @ r) (dest_model cwd)"
  "\<not> prefix (vosk_model cwd @ r) (android_assets cwd)"
  unfolding vosk_model_def dest_model_def android_assets_def append_assoc append_Cons append_Nil
  by (rule up_apart1; simp)+

lemma dest_xdir_apart:
  "\<not> prefix (dest_model cwd) (vosk_model cwd @ r)"
  unfolding vosk_model_def dest_model_def android_assets_def append_assoc append_Cons append_Nil
  by (rule up_apart2; simp)

lemma zip_xdir_apart:
  "\<not> prefix (model_zip cwd) (vosk_model cwd @ r)" "\<not> prefix (vosk_model cwd @ r) (model_zip cwd)"
  by (simp_all add: model_zip_def vosk_model_def)

lemma butlast_dest: "butlast (dest_model cwd) = android_assets cwd"
  by (simp add: dest_model_def butlast_append)

lemma dest_not_Nil: "dest_model cwd \<noteq> []" "model_zip cwd \<noteq> []" "vosk_model cwd \<noteq> []"
  by (simp_all add: dest_model_def model_zip_def vosk_model_def)

subsection \<open>The steps one by one: download\<close>

lemma write_file_result:
  "write_file p c fs = Inr fs' \<Longrightarrow> p \<noteq> [] \<Longrightarrow> lookup fs' p = Some (File c)"
  by (auto simp: write_file_def is_dir_def lookup_put_same split: if_splits option.splits node.splits)

lemma write_file_other:
  "write_file p c fs = Inr fs' \<Longrightarrow> \<not> prefix p q \<Longrightarrow> \<not> prefix q p \<Longrightarrow> lookup fs' q = lookup fs q"
  by (auto simp: write_file_def lookup_put_other split: if_splits option.splits node.splits)

lemma download_file_cases:
  assumes "download_file h z fs = res"
  shows "(\<exists>e. res = Inl (e, fs))
       \<or> (\<exists>r fs'. h = Response r \<and> ok r
            \<and> write_file z (concat (chunks r)) fs = Inr fs'
            \<and> (res = Inr fs' \<and> \<not> broken r \<or> res = Inl (ChunkedEncodingError, fs') \<and> broken r))"
  using assms
  by (auto simp: download_file_def dl_loop_written dl_init_def split: http.splits sum.splits if_splits)

lemma download_file_other:
  "\<not> prefix z q \<Longrightarrow> \<not> prefix q z \<Longrightarrow> lookup (final (download_file h z fs)) q = lookup fs q"
  using download_file_cases[OF refl, of h z fs]
  by (auto simp: final_def write_file_other)

lemma download_file_Inr:
  "download_file h z fs = Inr fs' \<Longrightarrow> z \<noteq> [] \<Longrightarrow>
     \<exists>r. h = Response r \<and> ok r \<and> lookup fs' z = Some (File (concat (chunks r)))"
  using download_file_cases[OF refl, of h z fs]
  by (auto simp: write_file_result)

subsection \<open>The steps one by one: extraction and installation\<close>

lemma mkdir_other:
  "mkdir p fs = Inr fs' \<Longrightarrow> \<not> prefix p q \<Longrightarrow> \<not> prefix q p \<Longrightarrow> lookup fs' q = lookup fs q"
  by (auto simp: mkdir_def lookup_put_other split: if_splits option.splits node.splits)

lemma attempt_final:
  "final (attempt r fs) = (case r of Inl e \<Rightarrow> fs | Inr fs' \<Rightarrow> fs')"
  by (simp add: attempt_def final_def split: sum.splits)

lemma attempt_other:
  "(\<And>fs'. r = Inr fs' \<Longrightarrow> lookup fs' q = lookup fs q) \<Longrightarrow> lookup (final (attempt r fs)) q = lookup fs q"
  by (cases r) (simp_all add: attempt_def final_def)

lemma place_other:
  assumes "\<not> prefix t q" "\<not> prefix q t"
  shows "lookup (final (place t m fs)) q = lookup fs q"
proof (cases m)
  case MDir
  show ?thesis
    using attempt_other[of "mkdir t fs" q fs] mkdir_other[of t fs _ q] assms
    by (auto simp: place_def MDir final_def)
next
  case (MFile c)
  show ?thesis
    using attempt_other[of "write_file t c fs" q fs] write_file_other[of t c fs _ q] assms
    by (auto simp: place_def MFile)
qed

lemma extract_member_place:
  "extract_member base pm fs =
     (case (if fst pm \<noteq> [] \<and> \<not> exists fs (butlast (base @ fst pm))
            then mkdirs (butlast (base @ fst pm)) fs else Inr fs) of
        Inl e \<Rightarrow> Inl (e, fs)
      | Inr fs1 \<Rightarrow> place (base @ fst pm) (snd pm) fs1)"
  by (simp add: extract_member_def Let_def)

lemma extract_member_other:
  assumes "\<not> prefix base q" "\<not> prefix q base"
  shows "lookup (final (extract_member base pm fs)) q = lookup fs q"
proof -
  let ?mp = "fst pm"
  have t: "\<not> prefix (base @ ?mp) q" "\<not> prefix q (base @ ?mp)"
    using apart_append[OF assms] by simp_all
  have u: "?mp \<noteq> [] \<Longrightarrow> \<not> prefix q (butlast (base @ ?mp))"
    using apart_append[OF assms, of "butlast ?mp"] by (simp add: butlast_append)
  show ?thesis
  proof (cases "?mp \<noteq> [] \<and> \<not> exists fs (butlast (base @ ?mp))")
    case True
    show ?thesis
    proof (cases "mkdirs (butlast (base @ ?mp)) fs")
      case (Inl e)
      then show ?thesis using True by (simp add: extract_member_place final_def)
    next
      case (Inr fs1)
      have 1: "lookup fs1 q = lookup fs q"
        using lookup_mkdirs_other[OF Inr] u True by simp
      show ?thesis using True Inr 1 place_other[OF t, of "snd pm" fs1]
        by (simp add: extract_member_place)
    qed
  next
    case False
    then show ?thesis using place_other[OF t, of "snd pm" fs]
      by (auto simp add: extract_member_place)
  qed
qed

lemma extractall_other:
  assumes "\<not> prefix base q" "\<not> prefix q base"
  shows "lookup (final (extractall base ms fs)) q = lookup fs q"
proof (induction ms arbitrary: fs)
  case Nil
  show ?case by (simp add: final_def)
next
  case (Cons pm ms)
  show ?case
  proof (cases "extract_member base pm fs")
    case (Inl e)
    then show ?thesis using extract_member_other[OF assms, of pm fs]
      by (simp add: final_def)
  next
    case (Inr fs1)
    then show ?thesis using extract_member_other[OF assms, of pm fs] Cons.IH[of fs1]
      by (simp add: final_def)
  qed
qed

lemma extract_model_other:
  assumes "\<not> prefix (vosk_model cwd) q" "\<not> prefix q (vosk_model cwd)"
  shows "lookup (final (extract_model unzip cwd fs)) q = lookup fs q"
  using extractall_other[OF assms]
  by (auto simp: extract_model_def final_def split: option.splits node.splits)

lemma assets_prefix_dest: "prefix (android_assets cwd) (dest_model cwd)"
  by (simp add: dest_model_def)

lemma dest_not_prefix_assets: "\<not> prefix (dest_model cwd) (android_assets cwd)"
  by (simp add: dest_model_def)

lemma off_dest_off_assets:
  "\<not> prefix q (dest_model cwd) \<Longrightarrow> \<not> prefix q (android_assets cwd)"
  using assets_prefix_dest prefix_order.trans by blast

lemma scandir_cong: "lookup fs d = lookup fs' d \<Longrightarrow> scandir fs d = scandir fs' d"
  by (simp add: scandir_def)

lemma glob_cong: "lookup fs d = lookup fs' d \<Longrightarrow> glob fs d p = glob fs' d p"
  by (simp add: glob_def scandir_def)

lemma rmtree_other:
  "rmtree p fs = Inr fs' \<Longrightarrow> \<not> prefix p q \<Longrightarrow> \<not> prefix q p \<Longrightarrow> lookup fs' q = lookup fs q"
  by (auto simp: rmtree_def lookup_remove_other split: option.splits node.splits)

lemma rmtree_gone:
  "rmtree p fs = Inr fs' \<Longrightarrow> p \<noteq> [] \<Longrightarrow> lookup fs' p = None"
  by (auto simp: rmtree_def lookup_remove_same split: option.splits node.splits)

lemma unlink_other:
  "unlink p fs = Inr fs' \<Longrightarrow> \<not> prefix p q \<Longrightarrow> \<not> prefix q p \<Longrightarrow> lookup fs' q = lookup fs q"
  by (auto simp: unlink_def lookup_remove_other split: option.splits node.splits)

lemma unlink_gone:
  "unlink p fs = Inr fs' \<Longrightarrow> p \<noteq> [] \<Longrightarrow> lookup fs' p = None"
  by (auto simp: unlink_def lookup_remove_same split: option.splits node.splits)

lemma copytree_Inr:
  assumes "copytree src dst fs = Inr fs'" "dst \<noteq> []"
  shows "\<exists>es. lookup fs src = Some (Dir es) \<and> lookup fs dst = None \<and> lookup fs' dst = Some (Dir es)"
proof -
  from assms(1) obtain es fs1 where
    src: "lookup fs src = Some (Dir es)" and ne: "\<not> exists fs dst"
    and mk: "mkdirs (butlast dst) fs = Inr fs1" and fs': "fs' = put dst (Dir es) fs1"
    by (auto simp: copytree_def split: option.splits node.splits if_splits sum.splits)
  have "is_dir fs1 (butlast dst)" using is_dir_mkdirs[OF mk] by simp
  then have "lookup fs' dst = Some (Dir es)" using fs' assms(2) by (simp add: lookup_put_same)
  then show ?thesis using src ne by (simp add: exists_def)
qed

lemma copytree_other:
  assumes "copytree src dst fs = Inr fs'" "\<not> prefix dst q" "\<not> prefix q dst"
  shows "lookup fs' q = lookup fs q"
proof -
  from assms(1) obtain es fs1 where
    mk: "mkdirs (butlast dst) fs = Inr fs1" and fs': "fs' = put dst (Dir es) fs1"
    by (auto simp: copytree_def split: option.splits node.splits if_splits sum.splits)
  have "\<not> prefix q (butlast dst)"
    using assms(3) by (metis prefix_order.trans prefixeq_butlast)
  then have "lookup fs1 q = lookup fs q" using lookup_mkdirs_other[OF mk] by simp
  then show ?thesis using fs' assms(2,3) by (simp add: lookup_put_other)
qed

lemma glob_Cons:
  "glob fs d p = x # xs \<Longrightarrow> \<exists>name rest. filter (prefix p) (scandir fs d) = name # rest \<and> x = d @ [name]"
  by (auto simp: glob_def)

lemma glob_Nil:
  "glob fs d p = [] \<longleftrightarrow> filter (prefix p) (scandir fs d) = []"
  by (simp add: glob_def)

lemma install_model_unfold:
  assumes "mkdirs (android_assets cwd) fs = Inr fs1"
    and "glob fs1 (vosk_model cwd) pat = model_dir # others"
  shows "install_model cwd fs =
     (case (if exists fs1 (dest_model cwd) then rmtree (dest_model cwd) fs1 else Inr fs1) of
        Inl e \<Rightarrow> Inl (e, fs1)
      | Inr fs2 \<Rightarrow> attempt (copytree model_dir (dest_model cwd) fs2) fs2)"
  unfolding install_model_def assms sum.case list.case ..

lemma rmtree_if_exists:
  "(if exists fs p then rmtree p fs else Inr fs) = Inr fs2 \<Longrightarrow>
     fs2 = (if exists fs p then remove p fs else fs)"
  by (auto simp: rmtree_def split: if_splits option.splits node.splits)

lemma install_model_Inr:
  assumes "install_model cwd fs = Inr fs'"
  shows "\<exists>fs1 fs2 name rest es.
           mkdirs (android_assets cwd) fs = Inr fs1
         \<and> filter (prefix pat) (scandir fs (vosk_model cwd)) = name # rest
         \<and> fs2 = (if exists fs1 (dest_model cwd) then remove (dest_model cwd) fs1 else fs1)
         \<and> lookup fs2 (dest_model cwd) = None
         \<and> copytree (vosk_model cwd @ [name]) (dest_model cwd) fs2 = Inr fs'
         \<and> lookup fs (vosk_model cwd @ [name]) = Some (Dir es)
         \<and> lookup fs' (dest_model cwd) = Some (Dir es)"
proof (cases "mkdirs (android_assets cwd) fs")
  case (Inl e)
  then show ?thesis using assms by (simp add: install_model_def)
next
  case mk: (Inr fs1)
  have same: "lookup fs1 (vosk_model cwd @ r) = lookup fs (vosk_model cwd @ r)" for r
    using lookup_mkdirs_other[OF mk] xdir_dest_apart(2) by simp
  have sd: "scandir fs1 (vosk_model cwd) = scandir fs (vosk_model cwd)"
    using same[of "[]"] by (simp add: scandir_def)
  show ?thesis
  proof (cases "glob fs1 (vosk_model cwd) pat")
    case Nil
    then show ?thesis using assms mk by (simp add: install_model_def)
  next
    case (Cons model_dir others)
    from glob_Cons[OF Cons] obtain name rest where
      g: "filter (prefix pat) (scandir fs1 (vosk_model cwd)) = name # rest"
      and md: "model_dir = vosk_model cwd @ [name]" by blast
    note unf = install_model_unfold[OF mk Cons]
    show ?thesis
    proof (cases "if exists fs1 (dest_model cwd) then rmtree (dest_model cwd) fs1 else Inr fs1")
      case (Inl e)
      then show ?thesis using assms unf by simp
    next
      case rm: (Inr fs2)
      have fs2: "fs2 = (if exists fs1 (dest_model cwd) then remove (dest_model cwd) fs1 else fs1)"
        using rmtree_if_exists[OF rm] .
      have cp: "copytree (vosk_model cwd @ [name]) (dest_model cwd) fs2 = Inr fs'"
        using assms unf rm md by (cases "copytree model_dir (dest_model cwd) fs2") (simp_all add: attempt_def)
      from copytree_Inr[OF cp dest_not_Nil(1)] obtain es where
        es: "lookup fs2 (vosk_model cwd @ [name]) = Some (Dir es)"
            "lookup fs2 (dest_model cwd) = None" "lookup fs' (dest_model cwd) = Some (Dir es)"
        by blast
      have "lookup fs2 (vosk_model cwd @ [name]) = lookup fs1 (vosk_model cwd @ [name])"
        unfolding fs2 using dest_xdir_apart[of cwd "[name]"] xdir_dest_apart(1)[of cwd "[name]"]
        by (simp add: lookup_remove_other)
      then have src: "lookup fs (vosk_model cwd @ [name]) = Some (Dir es)" using es(1) same by simp
      show ?thesis
        using mk g[unfolded sd] fs2 es(2) cp src es(3) by blast
    qed
  qed
qed

lemma install_model_other:
  assumes "\<not> prefix (dest_model cwd) q" "\<not> prefix q (dest_model cwd)"
  shows "lookup (final (install_model cwd fs)) q = lookup fs q"
proof (cases "mkdirs (android_assets cwd) fs")
  case (Inl e)
  then show ?thesis by (simp add: install_model_def final_def)
next
  case mk: (Inr fs1)
  have 1: "lookup fs1 q = lookup fs q"
    using lookup_mkdirs_other[OF mk] off_dest_off_assets[OF assms(2)] by simp
  show ?thesis
  proof (cases "glob fs1 (vosk_model cwd) pat")
    case Nil
    then show ?thesis using mk 1 by (simp add: install_model_def final_def)
  next
    case (Cons model_dir others)
    note unf = install_model_unfold[OF mk Cons]
    show ?thesis
    proof (cases "if exists fs1 (dest_model cwd) then rmtree (dest_model cwd) fs1 else Inr fs1")
      case (Inl e)
      then show ?thesis using unf 1 by (simp add: final_def)
    next
      case rm: (Inr fs2)
      have 2: "lookup fs2 q = lookup fs1 q"
        unfolding rmtree_if_exists[OF rm] using assms by (simp add: lookup_remove_other)
      have "lookup (final (attempt (copytree model_dir (dest_model cwd) fs2) fs2)) q = lookup fs2 q"
      proof (rule attempt_other)
        fix fs' assume "copytree model_dir (dest_model cwd) fs2 = Inr fs'"
        from copytree_other[OF this assms] show "lookup fs' q = lookup fs2 q" .
      qed
      then show ?thesis using unf rm 1 2 by simp
    qed
  qed
qed

lemma install_model_Inl_dest:
  assumes "install_model cwd fs = Inl (e, fs')"
  shows "lookup fs' (dest_model cwd) = lookup fs (dest_model cwd) \<or> lookup fs' (dest_model cwd) = None"
proof (cases "mkdirs (android_assets cwd) fs")
  case (Inl e)
  then show ?thesis using assms by (simp add: install_model_def)
next
  case mk: (Inr fs1)
  have 1: "lookup fs1 (dest_model cwd) = lookup fs (dest_model cwd)"
    using lookup_mkdirs_other[OF mk] dest_not_prefix_assets by simp
  show ?thesis
  proof (cases "glob fs1 (vosk_model cwd) pat")
    case Nil
    then show ?thesis using mk 1 assms by (simp add: install_model_def)
  next
    case (Cons model_dir others)
    note unf = install_model_unfold[OF mk Cons]
    show ?thesis
    proof (cases "if exists fs1 (dest_model cwd) then rmtree (dest_model cwd) fs1 else Inr fs1")
      case (Inl e)
      then show ?thesis using unf 1 assms by simp
    next
      case rm: (Inr fs2)
      have 2: "lookup fs2 (dest_model cwd) = None"
        unfolding rmtree_if_exists[OF rm] using dest_not_Nil(1)
        by (simp add: lookup_remove_same exists_def)
      have "fs' = fs2" using unf rm assms
        by (cases "copytree model_dir (dest_model cwd) fs2") (simp_all add: attempt_def)
      then show ?thesis using 2 by simp
    qed
  qed
qed

subsection \<open>The steps one by one: cleanup\<close>

lemma cleanup_Inr:
  assumes "cleanup cwd fs = Inr fs'"
  shows "lookup fs' (model_zip cwd) = None \<and> lookup fs' (vosk_model cwd) = None
       \<and> (\<forall>q. \<not> prefix (model_zip cwd) q \<longrightarrow> \<not> prefix q (model_zip cwd) \<longrightarrow>
              \<not> prefix (vosk_model cwd) q \<longrightarrow> \<not> prefix q (vosk_model cwd) \<longrightarrow>
              lookup fs' q = lookup fs q)"
proof -
  from assms obtain fs1 where u: "unlink (model_zip cwd) fs = Inr fs1"
    and r: "rmtree (vosk_model cwd) fs1 = Inr fs'"
    by (auto simp: cleanup_def attempt_def split: sum.splits)
  have "lookup fs' (model_zip cwd) = lookup fs1 (model_zip cwd)"
    using rmtree_other[OF r] zip_xdir_apart[of cwd "[]"] by simp
  then have "lookup fs' (model_zip cwd) = None" using unlink_gone[OF u] dest_not_Nil by simp
  moreover have "lookup fs' (vosk_model cwd) = None" using rmtree_gone[OF r] dest_not_Nil by simp
  ultimately show ?thesis using unlink_other[OF u] rmtree_other[OF r] by auto
qed

lemma cleanup_succeeds:
  assumes "is_file fs (model_zip cwd)" "is_dir fs (vosk_model cwd)"
  shows "\<exists>fs'. cleanup cwd fs = Inr fs'"
proof -
  from assms(1) have u: "unlink (model_zip cwd) fs = Inr (remove (model_zip cwd) fs)"
    by (auto simp: unlink_def is_file_def split: option.splits node.splits)
  have "lookup (remove (model_zip cwd) fs) (vosk_model cwd) = lookup fs (vosk_model cwd)"
    using zip_xdir_apart[of cwd "[]"] by (simp add: lookup_remove_other)
  then have "\<exists>fs'. rmtree (vosk_model cwd) (remove (model_zip cwd) fs) = Inr fs'"
    using assms(2) by (auto simp: rmtree_def is_dir_def split: option.splits node.splits)
  then show ?thesis using u by (auto simp: cleanup_def attempt_def)
qed

subsection \<open>Whole runs\<close>

lemma final_simps [simp]: "final (Inr fs) = fs" "final (Inl (e, fs)) = fs"
  by (simp_all add: final_def)

lemma lookup_child_dir:
  "lookup fs (d @ [n]) = Some v \<Longrightarrow> is_dir fs d"
  by (cases "lookup fs d"; cases "the (lookup fs d)")
     (auto simp: lookup_append is_dir_def split: option.splits)

lemma copytree_parents:
  assumes "copytree src dst fs = Inr fs'" "dst \<noteq> []" "prefix q dst"
  shows "is_dir fs' q"
proof (cases "q = dst")
  case True
  then show ?thesis using copytree_Inr[OF assms(1,2)] by (auto simp: is_dir_def)
next
  case False
  from assms(1) obtain es fs1 where
    mk: "mkdirs (butlast dst) fs = Inr fs1" and fs': "fs' = put dst (Dir es) fs1"
    by (auto simp: copytree_def split: option.splits node.splits if_splits sum.splits)
  have "prefix q (butlast dst)" using assms(3) False
    by (metis prefix_order.dual_order.strict_iff_order prefix_snoc snoc_eq_iff_butlast assms(2))
  then have "is_dir fs1 q" using is_dir_mkdirs[OF mk] by simp
  moreover have "\<not> prefix dst q" using assms(3) False by (simp add: prefix_order.antisym)
  ultimately show ?thesis unfolding fs' by (rule is_dir_put)
qed

text \<open>
  The four steps of a run of \<open>main\<close> that ends without an exception.
\<close>

lemma main_Inr:
  assumes "main h unzip cwd fs = Inr fs'"
  obtains fs1 fs2 fs3 where
    "download_file h (model_zip cwd) fs = Inr fs1" "extract_model unzip cwd fs1 = Inr fs2"
    "install_model cwd fs2 = Inr fs3" "cleanup cwd fs3 = Inr fs'"
  using assms by (auto simp: main_def split: sum.splits)

lemma is_file_lookup: "lookup fs p = Some (File c) \<Longrightarrow> is_file fs p"
  by (simp add: is_file_def)

text \<open>
  After an installation that succeeded, the cleanup cannot fail.
\<close>

lemma cleanup_after_install:
  assumes "lookup fs2 (model_zip cwd) = Some (File c)" "install_model cwd fs2 = Inr fs3"
  shows "\<exists>fs'. cleanup cwd fs3 = Inr fs'"
proof -
  have z: "lookup fs3 (model_zip cwd) = lookup fs2 (model_zip cwd)"
    using install_model_other[of cwd "model_zip cwd" fs2] assms(2)
      zip_dest_apart(1) dest_zip_apart by simp
  have x: "lookup fs3 (vosk_model cwd) = lookup fs2 (vosk_model cwd)"
    using install_model_other[of cwd "vosk_model cwd" fs2] assms(2)
      xdir_dest_apart(1)[of cwd "[]"] dest_xdir_apart[of cwd "[]"] by simp
  from install_model_Inr[OF assms(2)] obtain name es where
    "lookup fs2 (vosk_model cwd @ [name]) = Some (Dir es)" by blast
  then have "is_dir fs2 (vosk_model cwd)" by (rule lookup_child_dir)
  then have "is_dir fs3 (vosk_model cwd)" using x by (simp add: is_dir_def)
  moreover have "is_file fs3 (model_zip cwd)" using z assms(1) by (simp add: is_file_def)
  ultimately show ?thesis by (rule cleanup_succeeds[rotated])
qed

lemma main_parents:
  assumes "main h unzip cwd fs = Inr fs'" "prefix q (dest_model cwd)"
  shows "is_dir fs' q"
proof -
  from assms(1) obtain fs1 fs2 fs3 where
    i: "install_model cwd fs2 = Inr fs3" and c: "cleanup cwd fs3 = Inr fs'"
    by (rule main_Inr)
  from install_model_Inr[OF i] obtain fsm name where
    "copytree (vosk_model cwd @ [name]) (dest_model cwd) fsm = Inr fs3" by blast
  from copytree_parents[OF this dest_not_Nil(1) assms(2)] have d3: "is_dir fs3 q" .
  from c obtain fs4 where u: "unlink (model_zip cwd) fs3 = Inr fs4"
    and r: "rmtree (vosk_model cwd) fs4 = Inr fs'"
    by (auto simp: cleanup_def attempt_def split: sum.splits)
  have nz: "\<not> prefix (model_zip cwd) q"
    using assms(2) zip_dest_apart(1) prefix_order.trans by blast
  have nx: "\<not> prefix (vosk_model cwd) q"
    using assms(2) xdir_dest_apart(1)[of cwd "[]"] prefix_order.trans by fastforce
  have "fs4 = remove (model_zip cwd) fs3" using u
    by (auto simp: unlink_def split: option.splits node.splits)
  moreover have "fs' = remove (vosk_model cwd) fs4" using r
    by (auto simp: rmtree_def split: option.splits node.splits)
  ultimately show ?thesis using d3 nz nx by (simp add: is_dir_remove)
qed

subsection \<open>Extraction is local to its directory\<close>

lemma exists_append_cong:
  "lookup fsA base = lookup fsB base \<Longrightarrow> lookup fsA (base @ r) = lookup fsB (base @ r)"
  by (simp add: lookup_append)

lemma lookup_Dir_Nil_default:
  "(case lookup (Dir []) a of None \<Rightarrow> Dir [] | Some n \<Rightarrow> n) = Dir []"
  by (cases a) simp_all

lemma mkdirs_sub:
  "mkdirs (a @ r) t = Inr t' \<Longrightarrow>
     \<exists>n'. mkdirs r (case lookup t a of None \<Rightarrow> Dir [] | Some n \<Rightarrow> n) = Inr n' \<and> lookup t' a = Some n'"
proof (induction a arbitrary: t t')
  case Nil
  then show ?case by simp
next
  case (Cons x a)
  from Cons.prems obtain es where t: "t = Dir es" by (cases t) auto
  let ?c = "case map_of es x of None \<Rightarrow> Dir [] | Some n \<Rightarrow> n"
  from Cons.prems t obtain n1 where n1: "mkdirs (a @ r) ?c = Inr n1" "t' = Dir (AList.update x n1 es)"
    by (auto split: sum.splits)
  from Cons.IH[OF n1(1)] obtain n' where
    n': "mkdirs r (case lookup ?c a of None \<Rightarrow> Dir [] | Some n \<Rightarrow> n) = Inr n'" "lookup n1 a = Some n'"
    by blast
  have "(case lookup t (x # a) of None \<Rightarrow> Dir [] | Some n \<Rightarrow> n)
        = (case lookup ?c a of None \<Rightarrow> Dir [] | Some n \<Rightarrow> n)"
    using t lookup_Dir_Nil_default[of a] by (simp split: option.splits)
  then show ?case using n' n1(2) by (simp add: AList.update_conv')
qed

lemma put_local:
  assumes "is_dir fs (butlast (base @ mp))"
  shows "lookup (put (base @ mp) v fs) base
           = Some (case lookup fs base of Some n \<Rightarrow> put mp v n | None \<Rightarrow> v)"
proof (cases "lookup fs base")
  case (Some n)
  then show ?thesis by (simp add: lookup_put_sub)
next
  case None
  have "mp = []"
  proof (rule ccontr)
    assume "mp \<noteq> []"
    then have "butlast (base @ mp) = base @ butlast mp" by (simp add: butlast_append)
    then show False using assms None by (simp add: is_dir_def lookup_append)
  qed
  moreover have "base \<noteq> []" using None by auto
  ultimately show ?thesis using assms None by (simp add: lookup_put_same)
qed

lemma place_Inr:
  assumes "place t m fs = Inr fs'"
  shows "(m = MDir \<and> is_dir fs t \<and> fs' = fs)
       \<or> (\<exists>v. is_dir fs (butlast t) \<and> fs' = put t v fs
              \<and> (m = MDir \<and> \<not> is_dir fs t \<and> v = Dir [] \<or> (\<exists>c. m = MFile c \<and> v = File c)))"
  using assms
  by (cases m)
     (auto simp: place_def attempt_def mkdir_def write_file_def is_dir_def
           split: if_splits sum.splits option.splits node.splits)

lemma place_local:
  assumes eq: "lookup fsA base = lookup fsB base"
    and A: "place (base @ mp) m fsA = Inr fsA'" and B: "place (base @ mp) m fsB = Inr fsB'"
  shows "lookup fsA' base = lookup fsB' base"
proof -
  have d: "is_dir fsA (base @ mp) = is_dir fsB (base @ mp)"
    using exists_append_cong[OF eq, of mp] by (simp add: is_dir_def)
  from place_Inr[OF A] place_Inr[OF B] d eq show ?thesis
    by (auto simp: put_local)
qed

lemma extract_member_local:
  assumes eq: "lookup fsA base = lookup fsB base"
    and A: "extract_member base pm fsA = Inr fsA'" and B: "extract_member base pm fsB = Inr fsB'"
  shows "lookup fsA' base = lookup fsB' base"
proof -
  let ?mp = "fst pm"
  let ?up = "butlast (base @ ?mp)"
  let ?pre = "\<lambda>fs. if ?mp \<noteq> [] \<and> \<not> exists fs ?up then mkdirs ?up fs else Inr fs"
  from A obtain fsA1 where A1: "?pre fsA = Inr fsA1" "place (base @ ?mp) (snd pm) fsA1 = Inr fsA'"
    unfolding extract_member_place by (cases "?pre fsA") simp_all
  from B obtain fsB1 where B1: "?pre fsB = Inr fsB1" "place (base @ ?mp) (snd pm) fsB1 = Inr fsB'"
    unfolding extract_member_place by (cases "?pre fsB") simp_all
  have "lookup fsA1 base = lookup fsB1 base"
  proof (cases "?mp = []")
    case True
    then show ?thesis using A1(1) B1(1) eq by simp
  next
    case False
    then have up: "?up = base @ butlast ?mp" by (simp add: butlast_append)
    have ex: "exists fsA ?up = exists fsB ?up"
      unfolding up using exists_append_cong[OF eq] by (simp add: exists_def)
    show ?thesis
    proof (cases "exists fsA ?up")
      case True
      then show ?thesis using A1(1) B1(1) ex eq by simp
    next
      case nex: False
      then have "mkdirs (base @ butlast ?mp) fsA = Inr fsA1" "mkdirs (base @ butlast ?mp) fsB = Inr fsB1"
        using A1(1) B1(1) ex False up by simp_all
      from mkdirs_sub[OF this(1)] mkdirs_sub[OF this(2)] eq show ?thesis by auto
    qed
  qed
  then show ?thesis using A1(2) B1(2) by (rule place_local)
qed

lemma extractall_local:
  assumes "lookup fsA base = lookup fsB base"
    and "extractall base ms fsA = Inr fsA'" and "extractall base ms fsB = Inr fsB'"
  shows "lookup fsA' base = lookup fsB' base"
  using assms
proof (induction ms arbitrary: fsA fsB)
  case Nil
  then show ?case by simp
next
  case (Cons pm ms)
  from Cons.prems(2) obtain fsA1 where A: "extract_member base pm fsA = Inr fsA1"
    "extractall base ms fsA1 = Inr fsA'" by (auto split: sum.splits)
  from Cons.prems(3) obtain fsB1 where B: "extract_member base pm fsB = Inr fsB1"
    "extractall base ms fsB1 = Inr fsB'" by (auto split: sum.splits)
  from extract_member_local[OF Cons.prems(1) A(1) B(1)] have "lookup fsA1 base = lookup fsB1 base" .
  from Cons.IH[OF this A(2) B(2)] show ?case .
qed

text \<open>
  What a successful run leaves at the destination is decided by the response, the decoder
  and what \<open>vosk_model\<close> held before the run.
\<close>

lemma destination_determined:
  assumes eq: "lookup fsA (vosk_model cwd) = lookup fsB (vosk_model cwd)"
    and A: "main h unzip cwd fsA = Inr fsA'" and B: "main h unzip cwd fsB = Inr fsB'"
  shows "lookup fsA' (dest_model cwd) = lookup fsB' (dest_model cwd)"
proof -
  from A obtain a1 a2 a3 where
    Ad: "download_file h (model_zip cwd) fsA = Inr a1" and Ax: "extract_model unzip cwd a1 = Inr a2"
    and Ai: "install_model cwd a2 = Inr a3" and Ac: "cleanup cwd a3 = Inr fsA'"
    by (rule main_Inr)
  from B obtain b1 b2 b3 where
    Bd: "download_file h (model_zip cwd) fsB = Inr b1" and Bx: "extract_model unzip cwd b1 = Inr b2"
    and Bi: "install_model cwd b2 = Inr b3" and Bc: "cleanup cwd b3 = Inr fsB'"
    by (rule main_Inr)
  from download_file_Inr[OF Ad dest_not_Nil(2)] obtain r where
    r: "h = Response r" and zA: "lookup a1 (model_zip cwd) = Some (File (concat (chunks r)))"
    by blast
  from download_file_Inr[OF Bd dest_not_Nil(2)] r
  have zB: "lookup b1 (model_zip cwd) = Some (File (concat (chunks r)))" by auto
  have x1: "lookup a1 (vosk_model cwd) = lookup b1 (vosk_model cwd)"
    using download_file_other[of "model_zip cwd" "vosk_model cwd" h fsA]
      download_file_other[of "model_zip cwd" "vosk_model cwd" h fsB]
      Ad Bd zip_xdir_apart[of cwd "[]"] eq by simp
  from Ax zA obtain ms where ms: "unzip (concat (chunks r)) = Some ms"
    and Ae: "extractall (vosk_model cwd) ms a1 = Inr a2"
    by (auto simp: extract_model_def split: option.splits)
  from Bx zB ms have Be: "extractall (vosk_model cwd) ms b1 = Inr b2"
    by (auto simp: extract_model_def)
  from extractall_local[OF x1 Ae Be]
  have x2: "lookup a2 (vosk_model cwd) = lookup b2 (vosk_model cwd)" .
  then have sd: "scandir a2 (vosk_model cwd) = scandir b2 (vosk_model cwd)" by (rule scandir_cong)
  from install_model_Inr[OF Ai] obtain nA restA esA where
    nA: "filter (prefix pat) (scandir a2 (vosk_model cwd)) = nA # restA"
        "lookup a2 (vosk_model cwd @ [nA]) = Some (Dir esA)"
        "lookup a3 (dest_model cwd) = Some (Dir esA)" by blast
  from install_model_Inr[OF Bi] obtain nB restB esB where
    nB: "filter (prefix pat) (scandir b2 (vosk_model cwd)) = nB # restB"
        "lookup b2 (vosk_model cwd @ [nB]) = Some (Dir esB)"
        "lookup b3 (dest_model cwd) = Some (Dir esB)" by blast
  have "nA = nB" using nA(1) nB(1) sd by simp
  then have "esA = esB" using nA(2) nB(2) exists_append_cong[OF x2, of "[nB]"] by simp
  moreover have "lookup fsA' (dest_model cwd) = lookup a3 (dest_model cwd)"
    using cleanup_Inr[OF Ac] zip_dest_apart(1) dest_zip_apart
      xdir_dest_apart(1)[of cwd "[]"] dest_xdir_apart[of cwd "[]"] by simp
  moreover have "lookup fsB' (dest_model cwd) = lookup b3 (dest_model cwd)"
    using cleanup_Inr[OF Bc] zip_dest_apart(1) dest_zip_apart
      xdir_dest_apart(1)[of cwd "[]"] dest_xdir_apart[of cwd "[]"] by simp
  ultimately show ?thesis using nA(3) nB(3) by simp
qed

subsection \<open>Progress figures\<close>

lemma percent_100: "0 < tot \<Longrightarrow> (percent d tot = 100 \<longleftrightarrow> d = tot)"
  by (simp add: percent_def field_simps)

lemma progress_line_100: "progress_line 100 = CHR 0x0D # ''Progress: 100.0%''"
  by code_simp

lemma dl_step_silent: "tot \<le> 0 \<Longrightarrow> progress (dl_step tot s c) = progress s"
  by (simp add: dl_step_def Let_def)

lemma dl_loop_silent: "tot \<le> 0 \<Longrightarrow> progress (dl_loop tot s cs) = progress s"
  by (induction cs arbitrary: s) (simp_all add: dl_step_silent)

subsection \<open>The concrete runs\<close>

lemma run0_fs0: "run0 fs0 = Inr (final (run0 fs0))"
  by code_simp


section \<open>The claims\<close>

text \<open>
  C1. A run of \<open>main\<close> in which all four steps succeed: the download gave a file
  system \<open>fs1\<close>, the extraction \<open>fs2\<close>; the first entry of \<open>vosk_model\<close> in
  \<open>fs2\<close> that matches \<open>vosk-model-*\<close> is a directory, and after the run the
  destination \<open>../android/app/src/main/assets/vosk/model\<close> is that directory, entry
  for entry, while neither \<open>vosk-model.zip\<close> nor \<open>vosk_model\<close> exists.
\<close>

theorem successful_run_installs_and_cleans:
  assumes "main h unzip cwd fs = Inr fs'"
  shows "\<exists>fs1 fs2 name rest es.
           download_file h (model_zip cwd) fs = Inr fs1
         \<and> extract_model unzip cwd fs1 = Inr fs2
         \<and> filter (prefix pat) (scandir fs2 (vosk_model cwd)) = name # rest
         \<and> lookup fs2 (vosk_model cwd @ [name]) = Some (Dir es)
         \<and> lookup fs' (dest_model cwd) = Some (Dir es)
         \<and> lookup fs' (model_zip cwd) = None
         \<and> lookup fs' (vosk_model cwd) = None"
proof -
  from assms obtain fs1 fs2 fs3 where
    d: "download_file h (model_zip cwd) fs = Inr fs1" and x: "extract_model unzip cwd fs1 = Inr fs2"
    and i: "install_model cwd fs2 = Inr fs3" and c: "cleanup cwd fs3 = Inr fs'"
    by (rule main_Inr)
  from install_model_Inr[OF i] obtain name rest es where
    n: "filter (prefix pat) (scandir fs2 (vosk_model cwd)) = name # rest"
       "lookup fs2 (vosk_model cwd @ [name]) = Some (Dir es)"
       "lookup fs3 (dest_model cwd) = Some (Dir es)"
    by blast
  have "lookup fs' (dest_model cwd) = lookup fs3 (dest_model cwd)"
    using cleanup_Inr[OF c] zip_dest_apart(1) dest_zip_apart
      xdir_dest_apart(1)[of cwd "[]"] dest_xdir_apart[of cwd "[]"] by simp
  then show ?thesis using d x n cleanup_Inr[OF c] by auto
qed

text \<open>
  The run on \<open>fs0\<close> is such a run.
\<close>

theorem successful_run_installs_and_cleans_witness:
  "main (Response resp0) unzip0 cwd0 fs0 = Inr (final (run0 fs0))
   \<and> (\<exists>fs1 fs2 name rest es.
           download_file (Response resp0) (model_zip cwd0) fs0 = Inr fs1
         \<and> extract_model unzip0 cwd0 fs1 = Inr fs2
         \<and> filter (prefix pat) (scandir fs2 (vosk_model cwd0)) = name # rest
         \<and> lookup fs2 (vosk_model cwd0 @ [name]) = Some (Dir es)
         \<and> lookup (final (run0 fs0)) (dest_model cwd0) = Some (Dir es)
         \<and> lookup (final (run0 fs0)) (model_zip cwd0) = None
         \<and> lookup (final (run0 fs0)) (vosk_model cwd0) = None)"
proof -
  have h: "main (Response resp0) unzip0 cwd0 fs0 = Inr (final (run0 fs0))"
    using run0_fs0 by (simp add: run0_def)
  show ?thesis using h successful_run_installs_and_cleans[OF h] by blast
qed

text \<open>
  C2. When the response has a status that \<open>raise_for_status\<close> rejects (400 to 599,
  the statuses for which \<open>Response.ok\<close> is false), \<open>download_file\<close> raises
  \<open>HTTPError\<close> before it opens the file, and \<open>main\<close> ends there with the file
  system exactly as it was: nothing is extracted or installed, the destination is neither
  created nor modified, and whatever temporary artifact existed is still there.
\<close>

theorem http_error_aborts_unchanged:
  assumes "\<not> ok r"
  shows "download_file (Response r) (model_zip cwd) fs = Inl (HTTPError, fs)
       \<and> main (Response r) unzip cwd fs = Inl (HTTPError, fs)"
  using assms by (simp add: main_def download_file_def)

text \<open>
  A response with status 404.
\<close>

theorem http_error_aborts_unchanged_witness:
  "\<not> ok resp404
   \<and> download_file (Response resp404) (model_zip cwd0) fs0 = Inl (HTTPError, fs0)
   \<and> main (Response resp404) unzip0 cwd0 fs0 = Inl (HTTPError, fs0)"
proof -
  have h: "\<not> ok resp404" by code_simp
  show ?thesis using h http_error_aborts_unchanged[OF h, of cwd0 fs0 unzip0] by blast
qed

text \<open>
  C3, as amended. When \<open>vosk_model\<close> does not exist before the first run, and two runs
  in sequence on the same response both succeed, the destination after the second run is
  the destination after the first. (The extraction merges into an existing
  \<open>vosk_model\<close>, so without the condition the two can differ; see below.)
\<close>

theorem second_run_same_destination:
  assumes "lookup fs (vosk_model cwd) = None"
    and "main h unzip cwd fs = Inr fs1" and "main h unzip cwd fs1 = Inr fs2"
  shows "lookup fs2 (dest_model cwd) = lookup fs1 (dest_model cwd)"
proof -
  from assms(2) obtain a3 where "cleanup cwd a3 = Inr fs1" by (rule main_Inr)
  from cleanup_Inr[OF this] have "lookup fs1 (vosk_model cwd) = None" by simp
  then have "lookup fs (vosk_model cwd) = lookup fs1 (vosk_model cwd)" using assms(1) by simp
  from destination_determined[OF this assms(2,3)] show ?thesis by simp
qed

text \<open>
  Two runs on \<open>fs0\<close>.
\<close>

theorem second_run_same_destination_witness:
  "lookup fs0 (vosk_model cwd0) = None
   \<and> main (Response resp0) unzip0 cwd0 fs0 = Inr (final (run0 fs0))
   \<and> main (Response resp0) unzip0 cwd0 (final (run0 fs0)) = Inr (final (run0 (final (run0 fs0))))
   \<and> lookup (final (run0 (final (run0 fs0)))) (dest_model cwd0)
       = lookup (final (run0 fs0)) (dest_model cwd0)"
proof -
  have a: "lookup fs0 (vosk_model cwd0) = None" by code_simp
  have b: "main (Response resp0) unzip0 cwd0 fs0 = Inr (final (run0 fs0))"
    using run0_fs0 by (simp add: run0_def)
  have "run0 (final (run0 fs0)) = Inr (final (run0 (final (run0 fs0))))" by code_simp
  then have c: "main (Response resp0) unzip0 cwd0 (final (run0 fs0))
                  = Inr (final (run0 (final (run0 fs0))))"
    by (simp add: run0_def)
  show ?thesis using a b c second_run_same_destination[OF a b c] by blast
qed

text \<open>
  C3 as it is stated fails when an interrupted run left \<open>vosk_model\<close> behind: the
  first run installs the leftover file \<open>stale.txt\<close> together with the archive's
  files, the second run installs the archive's files only.
\<close>

theorem second_run_differs_after_leftover:
  "succeeded (run0 fs_stale) \<and> succeeded (run0 (final (run0 fs_stale)))
   \<and> lookup (final (run0 fs_stale)) (dest_model cwd0)
       = Some (Dir [(''stale.txt'', File [9]), (''am'', Dir [(''final.mdl'', File [1, 2])]),
                    (''README'', File [7])])
   \<and> lookup (final (run0 (final (run0 fs_stale)))) (dest_model cwd0)
       = Some (Dir [(''am'', Dir [(''final.mdl'', File [1, 2])]), (''README'', File [7])])"
  by code_simp

text \<open>
  C4. The install step on a file system in which the destination is a directory. When
  the step succeeds, the copy was made into a file system \<open>remove dest fs1\<close> in which
  the destination does not exist, and the destination is then the selected directory of
  \<open>vosk_model\<close>, entry for entry: nothing of the old content is left. When the step
  raises, the destination is as it was or it is gone; it is never a mixture.
\<close>

theorem install_replaces_destination:
  assumes "is_dir fs (dest_model cwd)"
  shows "(\<forall>fs'. install_model cwd fs = Inr fs' \<longrightarrow>
            (\<exists>fs1 name rest es.
               mkdirs (android_assets cwd) fs = Inr fs1
             \<and> filter (prefix pat) (scandir fs (vosk_model cwd)) = name # rest
             \<and> lookup (remove (dest_model cwd) fs1) (dest_model cwd) = None
             \<and> copytree (vosk_model cwd @ [name]) (dest_model cwd) (remove (dest_model cwd) fs1) = Inr fs'
             \<and> lookup fs (vosk_model cwd @ [name]) = Some (Dir es)
             \<and> lookup fs' (dest_model cwd) = Some (Dir es)))
       \<and> (\<forall>e fs'. install_model cwd fs = Inl (e, fs') \<longrightarrow>
            lookup fs' (dest_model cwd) = lookup fs (dest_model cwd)
          \<or> lookup fs' (dest_model cwd) = None)"
proof (intro conjI allI impI)
  fix fs' assume i: "install_model cwd fs = Inr fs'"
  from install_model_Inr[OF i] obtain fs1 fs2 name rest es where
    s: "mkdirs (android_assets cwd) fs = Inr fs1"
       "filter (prefix pat) (scandir fs (vosk_model cwd)) = name # rest"
       "fs2 = (if exists fs1 (dest_model cwd) then remove (dest_model cwd) fs1 else fs1)"
       "lookup fs2 (dest_model cwd) = None"
       "copytree (vosk_model cwd @ [name]) (dest_model cwd) fs2 = Inr fs'"
       "lookup fs (vosk_model cwd @ [name]) = Some (Dir es)"
       "lookup fs' (dest_model cwd) = Some (Dir es)"
    by blast
  have "lookup fs1 (dest_model cwd) = lookup fs (dest_model cwd)"
    using lookup_mkdirs_other[OF s(1)] dest_not_prefix_assets by simp
  then have "exists fs1 (dest_model cwd)" using assms
    by (auto simp: exists_def is_dir_def split: option.splits)
  then have "fs2 = remove (dest_model cwd) fs1" using s(3) by simp
  then show "\<exists>fs1 name rest es.
               mkdirs (android_assets cwd) fs = Inr fs1
             \<and> filter (prefix pat) (scandir fs (vosk_model cwd)) = name # rest
             \<and> lookup (remove (dest_model cwd) fs1) (dest_model cwd) = None
             \<and> copytree (vosk_model cwd @ [name]) (dest_model cwd) (remove (dest_model cwd) fs1) = Inr fs'
             \<and> lookup fs (vosk_model cwd @ [name]) = Some (Dir es)
             \<and> lookup fs' (dest_model cwd) = Some (Dir es)"
    using s by blast
next
  fix e fs' assume "install_model cwd fs = Inl (e, fs')"
  then show "lookup fs' (dest_model cwd) = lookup fs (dest_model cwd) \<or> lookup fs' (dest_model cwd) = None"
    by (rule install_model_Inl_dest)
qed

text \<open>
  An old destination replaced by the new model, and an old destination removed before a
  copy that fails because the entry that matches is a file.
\<close>

theorem install_replaces_destination_witness:
  "is_dir fs_old (dest_model cwd0)
   \<and> install_model cwd0 fs_old = Inr (final (install_model cwd0 fs_old))
   \<and> lookup fs_old (dest_model cwd0) = Some (Dir [(''old.txt'', File [9])])
   \<and> lookup (final (install_model cwd0 fs_old)) (dest_model cwd0)
       = Some (Dir [(''README'', File [7])])
   \<and> is_dir fs_old_bad (dest_model cwd0)
   \<and> install_model cwd0 fs_old_bad
       = Inl (NotADirectoryError, final (install_model cwd0 fs_old_bad))
   \<and> lookup (final (install_model cwd0 fs_old_bad)) (dest_model cwd0) = None"
proof -
  have a: "is_dir fs_old (dest_model cwd0)" by code_simp
  have b: "install_model cwd0 fs_old = Inr (final (install_model cwd0 fs_old))" by code_simp
  have c: "lookup fs_old (dest_model cwd0) = Some (Dir [(''old.txt'', File [9])])" by code_simp
  have e: "filter (prefix pat) (scandir fs_old (vosk_model cwd0)) = [''vosk-model-small-en-us-0.15'']"
    by code_simp
  have f: "lookup fs_old (vosk_model cwd0 @ [''vosk-model-small-en-us-0.15''])
             = Some (Dir [(''README'', File [7])])" by code_simp
  from install_replaces_destination[OF a] b obtain name rest es where
    "filter (prefix pat) (scandir fs_old (vosk_model cwd0)) = name # rest"
    "lookup fs_old (vosk_model cwd0 @ [name]) = Some (Dir es)"
    "lookup (final (install_model cwd0 fs_old)) (dest_model cwd0) = Some (Dir es)"
    by blast
  then have g: "lookup (final (install_model cwd0 fs_old)) (dest_model cwd0)
                  = Some (Dir [(''README'', File [7])])"
    using e f by simp
  have a': "is_dir fs_old_bad (dest_model cwd0)" by code_simp
  have b': "install_model cwd0 fs_old_bad
              = Inl (NotADirectoryError, final (install_model cwd0 fs_old_bad))" by code_simp
  have c': "lookup fs_old_bad (dest_model cwd0) \<noteq> lookup (final (install_model cwd0 fs_old_bad)) (dest_model cwd0)"
    by code_simp
  from install_replaces_destination[OF a'] b' c'
  have g': "lookup (final (install_model cwd0 fs_old_bad)) (dest_model cwd0) = None"
    by metis
  show ?thesis using a b c g a' b' g' by blast
qed

text \<open>
  C5. When the listing of \<open>vosk_model\<close> is \<open>before @ name # after\<close>, where
  \<open>name\<close> matches \<open>vosk-model-*\<close> and no entry of \<open>before\<close> does, the element
  \<open>[0]\<close> of the glob is \<open>vosk_model/name\<close>, and a successful install copies that
  entry: what \<open>after\<close> holds, matching or not, plays no part.
\<close>

theorem first_match_is_installed:
  assumes "scandir fs (vosk_model cwd) = before @ name # after"
    and "prefix pat name" and "\<forall>n \<in> set before. \<not> prefix pat n"
  shows "(\<forall>fs1. mkdirs (android_assets cwd) fs = Inr fs1 \<longrightarrow>
            hd (glob fs1 (vosk_model cwd) pat) = vosk_model cwd @ [name])
       \<and> (\<forall>fs'. install_model cwd fs = Inr fs' \<longrightarrow>
            lookup fs' (dest_model cwd) = lookup fs (vosk_model cwd @ [name]))"
proof -
  have "filter (prefix pat) before = []" using assms(3) by (simp add: filter_empty_conv)
  then have f: "filter (prefix pat) (scandir fs (vosk_model cwd)) = name # filter (prefix pat) after"
    using assms(1,2) by simp
  show ?thesis
  proof (intro conjI allI impI)
    fix fs1 assume mk: "mkdirs (android_assets cwd) fs = Inr fs1"
    have "lookup fs1 (vosk_model cwd) = lookup fs (vosk_model cwd)"
      using lookup_mkdirs_other[OF mk] xdir_dest_apart(2)[of cwd "[]"] by simp
    then have "scandir fs1 (vosk_model cwd) = scandir fs (vosk_model cwd)" by (rule scandir_cong)
    then show "hd (glob fs1 (vosk_model cwd) pat) = vosk_model cwd @ [name]"
      using f by (simp add: glob_def)
  next
    fix fs' assume i: "install_model cwd fs = Inr fs'"
    from install_model_Inr[OF i] f show "lookup fs' (dest_model cwd) = lookup fs (vosk_model cwd @ [name])"
      by auto
  qed
qed

text \<open>
  In \<open>fs_multi\<close> both \<open>vosk-model-b\<close> and \<open>vosk-model-a\<close> match; the first of
  the listing is installed.
\<close>

theorem first_match_is_installed_witness:
  "scandir fs_multi (vosk_model cwd0) = [''notes''] @ ''vosk-model-b'' # [''vosk-model-a'']
   \<and> prefix pat ''vosk-model-b'' \<and> prefix pat ''vosk-model-a''
   \<and> (\<forall>n \<in> set [''notes'']. \<not> prefix pat n)
   \<and> install_model cwd0 fs_multi = Inr (final (install_model cwd0 fs_multi))
   \<and> lookup (final (install_model cwd0 fs_multi)) (dest_model cwd0)
       = Some (Dir [(''b'', File [2])])"
proof -
  have a: "scandir fs_multi (vosk_model cwd0) = [''notes''] @ ''vosk-model-b'' # [''vosk-model-a'']"
    by code_simp
  have b: "prefix pat ''vosk-model-b''" by simp
  have b2: "prefix pat ''vosk-model-a''" by simp
  have c: "\<forall>n \<in> set [''notes'']. \<not> prefix pat n" by simp
  have d: "install_model cwd0 fs_multi = Inr (final (install_model cwd0 fs_multi))" by code_simp
  have e: "lookup fs_multi (vosk_model cwd0 @ [''vosk-model-b'']) = Some (Dir [(''b'', File [2])])"
    by code_simp
  from first_match_is_installed[OF a b c] d
  have "lookup (final (install_model cwd0 fs_multi)) (dest_model cwd0)
          = lookup fs_multi (vosk_model cwd0 @ [''vosk-model-b''])" by blast
  then show ?thesis using a b b2 c d e by simp
qed

text \<open>
  C6. A run of \<open>main\<close> that ends with an exception ended in the download, in the
  extraction or in the installation (the cleanup cannot raise once the installation has
  succeeded), and the file system it leaves is the one of that moment, with nothing
  cleaned up: after a failed download \<open>vosk_model\<close> is as it was and the archive
  file is untouched or holds the bytes received; after a failed extraction or
  installation the archive file holds the whole body; after a failed installation
  \<open>vosk_model\<close> is as the extraction left it.
\<close>

theorem abort_skips_cleanup:
  assumes "main h unzip cwd fs = Inl (e, fs')"
  shows "(download_file h (model_zip cwd) fs = Inl (e, fs')
            \<and> lookup fs' (vosk_model cwd) = lookup fs (vosk_model cwd)
            \<and> (fs' = fs \<or> (\<exists>r. h = Response r
                   \<and> lookup fs' (model_zip cwd) = Some (File (concat (chunks r))))))
       \<or> (\<exists>r fs1. h = Response r
            \<and> download_file h (model_zip cwd) fs = Inr fs1
            \<and> lookup fs' (model_zip cwd) = Some (File (concat (chunks r)))
            \<and> (extract_model unzip cwd fs1 = Inl (e, fs')
               \<or> (\<exists>fs2. extract_model unzip cwd fs1 = Inr fs2
                     \<and> install_model cwd fs2 = Inl (e, fs')
                     \<and> lookup fs' (vosk_model cwd) = lookup fs2 (vosk_model cwd))))"
proof (cases "download_file h (model_zip cwd) fs")
  case (Inl x)
  then have d: "download_file h (model_zip cwd) fs = Inl (e, fs')"
    using assms by (simp add: main_def)
  have x: "lookup fs' (vosk_model cwd) = lookup fs (vosk_model cwd)"
    using download_file_other[of "model_zip cwd" "vosk_model cwd" h fs] d
      zip_xdir_apart[of cwd "[]"] by simp
  from download_file_cases[OF d]
  have "fs' = fs \<or> (\<exists>r. h = Response r
          \<and> lookup fs' (model_zip cwd) = Some (File (concat (chunks r))))"
    using write_file_result[of "model_zip cwd" _ fs fs'] dest_not_Nil(2)[of cwd] by auto
  then show ?thesis using d x by blast
next
  case (Inr fs1)
  from download_file_Inr[OF Inr dest_not_Nil(2)] obtain r where
    r: "h = Response r" "lookup fs1 (model_zip cwd) = Some (File (concat (chunks r)))" by blast
  show ?thesis
  proof (cases "extract_model unzip cwd fs1")
    case (Inl x)
    then have x: "extract_model unzip cwd fs1 = Inl (e, fs')" using assms Inr by (simp add: main_def)
    have "lookup fs' (model_zip cwd) = lookup fs1 (model_zip cwd)"
      using extract_model_other[of cwd "model_zip cwd" unzip fs1] x zip_xdir_apart[of cwd "[]"]
      by simp
    then show ?thesis using Inr r x by auto
  next
    case x: (Inr fs2)
    have z2: "lookup fs2 (model_zip cwd) = lookup fs1 (model_zip cwd)"
      using extract_model_other[of cwd "model_zip cwd" unzip fs1] x zip_xdir_apart[of cwd "[]"]
      by simp
    show ?thesis
    proof (cases "install_model cwd fs2")
      case (Inl y)
      then have i: "install_model cwd fs2 = Inl (e, fs')" using assms Inr x by (simp add: main_def)
      have "lookup fs' (model_zip cwd) = lookup fs2 (model_zip cwd)"
        using install_model_other[of cwd "model_zip cwd" fs2] i zip_dest_apart(1) dest_zip_apart
        by simp
      moreover have "lookup fs' (vosk_model cwd) = lookup fs2 (vosk_model cwd)"
        using install_model_other[of cwd "vosk_model cwd" fs2] i
          xdir_dest_apart(1)[of cwd "[]"] dest_xdir_apart[of cwd "[]"] by simp
      ultimately show ?thesis using Inr r x i z2 by auto
    next
      case i: (Inr fs3)
      from cleanup_after_install[OF _ i] z2 r(2) obtain fs4 where "cleanup cwd fs3 = Inr fs4"
        by auto
      then have False using assms Inr x i by (simp add: main_def)
      then show ?thesis ..
    qed
  qed
qed

text \<open>
  A run whose archive has no model directory ends in the installation, and leaves both
  the archive file and \<open>vosk_model\<close>, neither of which existed before.
\<close>

theorem abort_skips_cleanup_witness:
  "main (Response resp1) unzip0 cwd0 fs0 = Inl (IndexError, final (run1 fs0))
   \<and> lookup fs0 (model_zip cwd0) = None \<and> lookup fs0 (vosk_model cwd0) = None
   \<and> lookup (final (run1 fs0)) (model_zip cwd0) = Some (File [80, 75, 4])
   \<and> lookup (final (run1 fs0)) (vosk_model cwd0) = Some (Dir [(''README'', File [7])])
   \<and> (\<exists>fs1 fs2. download_file (Response resp1) (model_zip cwd0) fs0 = Inr fs1
          \<and> extract_model unzip0 cwd0 fs1 = Inr fs2
          \<and> install_model cwd0 fs2 = Inl (IndexError, final (run1 fs0))
          \<and> lookup (final (run1 fs0)) (vosk_model cwd0) = lookup fs2 (vosk_model cwd0))"
proof -
  have "run1 fs0 = Inl (IndexError, final (run1 fs0))" by code_simp
  then have h: "main (Response resp1) unzip0 cwd0 fs0 = Inl (IndexError, final (run1 fs0))"
    by (simp add: run1_def)
  have d: "download_file (Response resp1) (model_zip cwd0) fs0
             \<noteq> Inl (IndexError, final (run1 fs0))" by code_simp
  have x: "\<And>fs1. download_file (Response resp1) (model_zip cwd0) fs0 = Inr fs1 \<Longrightarrow>
             extract_model unzip0 cwd0 fs1 \<noteq> Inl (IndexError, final (run1 fs0))"
  proof -
    fix fs1 assume a: "download_file (Response resp1) (model_zip cwd0) fs0 = Inr fs1"
    have "download_file (Response resp1) (model_zip cwd0) fs0
            = Inr (final (download_file (Response resp1) (model_zip cwd0) fs0))" by code_simp
    with a have "fs1 = final (download_file (Response resp1) (model_zip cwd0) fs0)" by simp
    moreover have "extract_model unzip0 cwd0 (final (download_file (Response resp1) (model_zip cwd0) fs0))
            \<noteq> Inl (IndexError, final (run1 fs0))" by code_simp
    ultimately show "extract_model unzip0 cwd0 fs1 \<noteq> Inl (IndexError, final (run1 fs0))" by simp
  qed
  have z: "lookup fs0 (model_zip cwd0) = None" "lookup fs0 (vosk_model cwd0) = None"
    "lookup (final (run1 fs0)) (model_zip cwd0) = Some (File [80, 75, 4])"
    "lookup (final (run1 fs0)) (vosk_model cwd0) = Some (Dir [(''README'', File [7])])"
    by code_simp+
  from abort_skips_cleanup[OF h] d x
  have "\<exists>fs1 fs2. download_file (Response resp1) (model_zip cwd0) fs0 = Inr fs1
          \<and> extract_model unzip0 cwd0 fs1 = Inr fs2
          \<and> install_model cwd0 fs2 = Inl (IndexError, final (run1 fs0))
          \<and> lookup (final (run1 fs0)) (vosk_model cwd0) = lookup fs2 (vosk_model cwd0)"
    by blast
  then show ?thesis using h z by blast
qed

text \<open>
  C7, as amended. With a positive content length every chunk that is not empty prints
  one line, the percentage \<open>downloaded / total * 100\<close> with one decimal; the
  percentage itself is 100 exactly when the bytes written are the declared length, and
  the line printed then reads \<open>100.0%\<close>. With no header the total is 0 and nothing
  is printed. The percentage is taken as the exact quotient; the line can read
  \<open>100.0%\<close> earlier, because of the rounding to one decimal (see below).
\<close>

theorem progress_reports:
  "(tot \<le> 0 \<longrightarrow> progress (dl_loop tot s cs) = progress s)
   \<and> (0 < tot \<longrightarrow> c \<noteq> [] \<longrightarrow>
        progress (dl_step tot s c)
          = progress s @ [progress_line (percent (downloaded s + int (length c)) tot)])
   \<and> (0 < tot \<longrightarrow> (percent d tot = 100 \<longleftrightarrow> d = tot))
   \<and> (0 < tot \<longrightarrow> progress_line (percent tot tot) = CHR 0x0D # ''Progress: 100.0%'')
   \<and> total_of NoHeader = Inr 0"
proof (intro conjI impI)
  assume "0 < tot"
  then have "percent tot tot = 100" by (simp add: percent_100)
  then show "progress_line (percent tot tot) = CHR 0x0D # ''Progress: 100.0%''"
    by (simp only: progress_line_100)
qed (simp_all add: dl_loop_silent percent_100 dl_step_def Let_def)

text \<open>
  No line for a total of 0; \<open>75.0%\<close> after 3 bytes of 4.
\<close>

theorem progress_reports_witness:
  "((0::int) \<le> 0 \<and> progress (dl_loop 0 dl_init [[1, 2], [3]]) = progress dl_init)
   \<and> ((0::int) < 4 \<and> [1, 2, 3] \<noteq> ([]::bytes)
        \<and> progress (dl_step 4 dl_init [1, 2, 3]) = [CHR 0x0D # ''Progress: 75.0%''])
   \<and> ((0::int) < 4 \<and> percent 3 4 \<noteq> 100 \<and> percent 4 4 = 100)
   \<and> progress_line (percent 4 4) = CHR 0x0D # ''Progress: 100.0%''"
proof -
  have a: "progress_line (percent (downloaded dl_init + int (length [1, 2, 3::byte])) 4)
             = CHR 0x0D # ''Progress: 75.0%''" by code_simp
  have b: "progress dl_init = []" by (simp add: dl_init_def)
  show ?thesis
    using progress_reports[of 0 dl_init "[[1, 2], [3]]" "[]" 0]
      progress_reports[of 4 dl_init "[]" "[1, 2, 3]" 3]
      progress_reports[of 4 dl_init "[]" "[1, 2, 3]" 4] a b
    by (simp add: progress_line_100)
qed

text \<open>
  C7 as it is stated fails: after the first chunk of 8192 bytes of a body of 8193 bytes
  the line printed is \<open>Progress: 100.0%\<close>, and one byte is still to come.
\<close>

theorem progress_100_before_completion:
  "progress (dl_loop 8193 dl_init [replicate 8192 0])
     = [CHR 0x0D # ''Progress: 100.0%'']
   \<and> downloaded (dl_loop 8193 dl_init [replicate 8192 0]) = 8192
   \<and> downloaded (dl_loop 8193 dl_init [replicate 8192 0]) \<noteq> 8193"
proof -
  have p: "progress_line (percent 8192 8193) = CHR 0x0D # ''Progress: 100.0%''" by code_simp
  show ?thesis
    by (simp add: dl_step_def dl_init_def Let_def p)
qed

text \<open>
  C8, as amended. The program creates the destination's parents itself: line 46 creates
  \<open>../android/app/src/main/assets/vosk\<close> with every missing directory above it, and
  succeeds whenever no file stands where one of these directories should be; after a
  successful run the destination and everything above it are directories.
\<close>

theorem parents_are_created:
  "(main h unzip cwd fs = Inr fs' \<longrightarrow> (\<forall>q. prefix q (dest_model cwd) \<longrightarrow> is_dir fs' q))
   \<and> ((\<forall>q. prefix q (android_assets cwd) \<longrightarrow> \<not> is_file fs2 q) \<longrightarrow>
        (\<exists>fs3. mkdirs (android_assets cwd) fs2 = Inr fs3
           \<and> (\<forall>q. prefix q (android_assets cwd) \<longrightarrow> is_dir fs3 q)))"
proof (intro conjI impI allI)
  fix q assume "main h unzip cwd fs = Inr fs'" "prefix q (dest_model cwd)"
  then show "is_dir fs' q" by (rule main_parents)
next
  assume "\<forall>q. prefix q (android_assets cwd) \<longrightarrow> \<not> is_file fs2 q"
  from mkdirs_succeeds[OF this] obtain fs3 where "mkdirs (android_assets cwd) fs2 = Inr fs3" ..
  then show "\<exists>fs3. mkdirs (android_assets cwd) fs2 = Inr fs3
           \<and> (\<forall>q. prefix q (android_assets cwd) \<longrightarrow> is_dir fs3 q)"
    using is_dir_mkdirs by blast
qed

text \<open>
  The run on \<open>fs0\<close>, where none of them exists.
\<close>

theorem parents_are_created_witness:
  "main (Response resp0) unzip0 cwd0 fs0 = Inr (final (run0 fs0))
   \<and> (\<forall>q. prefix q (dest_model cwd0) \<longrightarrow> is_dir (final (run0 fs0)) q)
   \<and> (\<forall>q. prefix q (android_assets cwd0) \<longrightarrow> \<not> is_file fs0 q)
   \<and> (\<exists>fs3. mkdirs (android_assets cwd0) fs0 = Inr fs3
         \<and> (\<forall>q. prefix q (android_assets cwd0) \<longrightarrow> is_dir fs3 q))"
proof -
  have h: "main (Response resp0) unzip0 cwd0 fs0 = Inr (final (run0 fs0))"
    using run0_fs0 by (simp add: run0_def)
  have "\<forall>q \<in> set (prefixes (android_assets cwd0)). \<not> is_file fs0 q" by code_simp
  then have f: "\<forall>q. prefix q (android_assets cwd0) \<longrightarrow> \<not> is_file fs0 q"
    by (simp add: in_set_prefixes)
  show ?thesis
    using h f parents_are_created[of "Response resp0" unzip0 cwd0 fs0 "final (run0 fs0)" fs0]
    by blast
qed

text \<open>
  C8 as it is stated fails: in \<open>fs0\<close> there is no \<open>android\<close> directory next
  to the directory of the script, and the run succeeds and creates it.
\<close>

theorem parents_created_by_the_run:
  "lookup fs0 [''home'', ''lylyt'', ''android''] = None
   \<and> succeeded (main (Response resp0) unzip0 cwd0 fs0)
   \<and> is_dir (final (main (Response resp0) unzip0 cwd0 fs0))
        [''home'', ''lylyt'', ''android'', ''app'', ''src'', ''main'', ''assets'', ''vosk'']
   \<and> lookup (final (main (Response resp0) unzip0 cwd0 fs0)) (dest_model cwd0)
        = Some (Dir [(''am'', Dir [(''final.mdl'', File [1, 2])]), (''README'', File [7])])"
  by code_simp

text \<open>
  C9. When the download and the extraction have succeeded and no entry of
  \<open>vosk_model\<close> matches \<open>vosk-model-*\<close>, \<open>main\<close> ends with an exception and
  the destination is what it was before the run. The exception is the \<open>IndexError\<close>
  of line 50, raised in the file system that line 46 left, unless line 46 itself raised.
\<close>

theorem no_match_aborts_before_destination:
  assumes "download_file h (model_zip cwd) fs = Inr fs1"
    and "extract_model unzip cwd fs1 = Inr fs2"
    and "\<forall>n \<in> set (scandir fs2 (vosk_model cwd)). \<not> prefix pat n"
  shows "\<exists>e fs3. main h unzip cwd fs = Inl (e, fs3)
           \<and> lookup fs3 (dest_model cwd) = lookup fs (dest_model cwd)
           \<and> (case mkdirs (android_assets cwd) fs2 of
                Inr fsm \<Rightarrow> e = IndexError \<and> fs3 = fsm
              | Inl e' \<Rightarrow> e = e' \<and> fs3 = fs2)"
proof -
  have 1: "lookup fs1 (dest_model cwd) = lookup fs (dest_model cwd)"
    using download_file_other[of "model_zip cwd" "dest_model cwd" h fs] assms(1)
      zip_dest_apart(1) dest_zip_apart by simp
  have 2: "lookup fs2 (dest_model cwd) = lookup fs1 (dest_model cwd)"
    using extract_model_other[of cwd "dest_model cwd" unzip fs1] assms(2)
      xdir_dest_apart(1)[of cwd "[]"] dest_xdir_apart[of cwd "[]"] by simp
  show ?thesis
  proof (cases "mkdirs (android_assets cwd) fs2")
    case (Inl e')
    then show ?thesis using assms(1,2) 1 2 by (simp add: main_def install_model_def)
  next
    case (Inr fsm)
    have "lookup fsm (vosk_model cwd) = lookup fs2 (vosk_model cwd)"
      using lookup_mkdirs_other[OF Inr] xdir_dest_apart(2)[of cwd "[]"] by simp
    then have "scandir fsm (vosk_model cwd) = scandir fs2 (vosk_model cwd)" by (rule scandir_cong)
    then have g: "glob fsm (vosk_model cwd) pat = []"
      using assms(3) by (simp add: glob_def filter_empty_conv)
    have 3: "lookup fsm (dest_model cwd) = lookup fs2 (dest_model cwd)"
      using lookup_mkdirs_other[OF Inr] dest_not_prefix_assets by simp
    show ?thesis using assms(1,2) Inr g 1 2 3 by (simp add: main_def install_model_def)
  qed
qed

text \<open>
  An archive without a model directory, and a destination installed earlier.
\<close>

theorem no_match_aborts_before_destination_witness:
  "download_file (Response resp1) (model_zip cwd0) fs_prev = Inr fetched1
   \<and> extract_model unzip0 cwd0 fetched1 = Inr unpacked1
   \<and> (\<forall>n \<in> set (scandir unpacked1 (vosk_model cwd0)). \<not> prefix pat n)
   \<and> main (Response resp1) unzip0 cwd0 fs_prev = Inl (IndexError, final (run1 fs_prev))
   \<and> lookup (final (run1 fs_prev)) (dest_model cwd0) = Some (Dir [(''old.txt'', File [9])])"
proof -
  have a: "download_file (Response resp1) (model_zip cwd0) fs_prev = Inr fetched1"
    by code_simp
  have b: "extract_model unzip0 cwd0 fetched1 = Inr unpacked1"
    by code_simp
  have c: "\<forall>n \<in> set (scandir unpacked1 (vosk_model cwd0)). \<not> prefix pat n"
    by code_simp
  have "run1 fs_prev = Inl (IndexError, final (run1 fs_prev))" by code_simp
  then have h: "main (Response resp1) unzip0 cwd0 fs_prev = Inl (IndexError, final (run1 fs_prev))"
    by (simp add: run1_def)
  have o: "lookup fs_prev (dest_model cwd0) = Some (Dir [(''old.txt'', File [9])])"
    by code_simp
  from no_match_aborts_before_destination[OF a b c] h
  have "lookup (final (run1 fs_prev)) (dest_model cwd0) = lookup fs_prev (dest_model cwd0)"
    by auto
  then show ?thesis using a b c h o by simp
qed

text \<open>
  C10. The state of the loop after any number \<open>n\<close> of chunks of any response: the counter
  \<open>downloaded\<close> is the number of bytes written to the file, which are the chunks seen so
  far, one after the other; and an empty chunk changes neither the file nor the counter.
\<close>

theorem downloaded_is_bytes_written:
  "downloaded (dl_loop tot dl_init (take n cs))
     = int (length (written (dl_loop tot dl_init (take n cs))))
   \<and> written (dl_loop tot dl_init (take n cs)) = concat (take n cs)
   \<and> dl_step tot s [] = s"
  by (simp add: dl_loop_written dl_loop_downloaded dl_init_def dl_step_def)

end
